theory Spec2Isabelle
  imports Main "HOL-Library.AList"
begin

section \<open>Strings\<close>

text \<open>
  A JavaScript string is a sequence of UTF-16 code units; a code unit is modelled by its
  number. \<open>lit\<close> turns an ASCII literal into such a sequence. The glyphs of the
  normalizer are U+2122 (trade mark), U+00AE (registered) and U+00A9 (copyright).
\<close>

type_synonym jsstring = "nat list"

definition lit :: "string \<Rightarrow> jsstring" where
  "lit s = map of_char s"

text \<open>The characters matched by \<open>\s\<close> in a regular expression and removed by \<open>trim()\<close>:
  WhiteSpace and LineTerminator of ECMAScript.\<close>

definition isWhitespace :: "nat \<Rightarrow> bool" where
  "isWhitespace c \<longleftrightarrow>
     c = 9 \<or> c = 10 \<or> c = 11 \<or> c = 12 \<or> c = 13 \<or> c = 32 \<or> c = 160 \<or> c = 5760 \<or>
     (8192 \<le> c \<and> c \<le> 8202) \<or> c = 8232 \<or> c = 8233 \<or> c = 8239 \<or> c = 8287 \<or>
     c = 12288 \<or> c = 65279"

text \<open>
  The lower-case counterpart of a capital letter of Basic Latin, every other code unit as it
  is. This is how a character of the subject is compared with an ASCII letter of a pattern
  under the \<open>i\<close> flag (without the \<open>u\<close> flag, a code unit above 127 never matches
  one below 128).
\<close>

definition basicLatinLower :: "nat \<Rightarrow> nat" where
  "basicLatinLower c = (if 65 \<le> c \<and> c \<le> 90 then c + 32 else c)"

definition isSymbol :: "nat \<Rightarrow> bool" where
  "isSymbol c \<longleftrightarrow> c = 8482 \<or> c = 174 \<or> c = 169"

text \<open>
  \<open>String.prototype.toLowerCase\<close> is a built-in that maps every cased letter of Unicode,
  not always one code unit to one. Its result is known here for the strings written in
  Basic Latin, the whitespace characters and the three glyphs, none of which has a case
  but the letters A to Z: there it lower-cases those letters, unit by unit. For any other
  string the result is what the built-in's case mapping gives, and that mapping is a
  parameter, \<open>u\<close>, of everything that lower-cases.
\<close>

type_synonym caseMapping = "jsstring \<Rightarrow> jsstring"

definition knownCase :: "nat \<Rightarrow> bool" where
  "knownCase c \<longleftrightarrow> c < 128 \<or> isWhitespace c \<or> isSymbol c"

definition toLowerCase :: "caseMapping \<Rightarrow> jsstring \<Rightarrow> jsstring" where
  "toLowerCase u s = (if list_all knownCase s then map basicLatinLower s else u s)"

definition trim :: "jsstring \<Rightarrow> jsstring" where
  "trim s = rev (dropWhile isWhitespace (rev (dropWhile isWhitespace s)))"

text \<open>\<open>s.includes(t)\<close> and \<open>s.endsWith(t)\<close>.\<close>

fun startsWith :: "jsstring \<Rightarrow> jsstring \<Rightarrow> bool" where
  "startsWith s [] = True"
| "startsWith [] (t # ts) = False"
| "startsWith (c # cs) (t # ts) = (c = t \<and> startsWith cs ts)"

fun includesStr :: "jsstring \<Rightarrow> jsstring \<Rightarrow> bool" where
  "includesStr [] t = (t = [])"
| "includesStr (c # cs) t = (startsWith (c # cs) t \<or> includesStr cs t)"

definition endsWith :: "jsstring \<Rightarrow> jsstring \<Rightarrow> bool" where
  "endsWith s t = startsWith (rev s) (rev t)"

text \<open>\<open>s.split(sep)\<close> for a separator of one character: always at least one piece.\<close>

fun split :: "nat \<Rightarrow> jsstring \<Rightarrow> jsstring list" where
  "split sep [] = [[]]"
| "split sep (c # cs) =
     (if c = sep then [] # split sep cs
      else (case split sep cs of [] \<Rightarrow> [[c]] | p # ps \<Rightarrow> (c # p) # ps))"

section \<open>Name normalizer\<close>

text \<open>
  Matching under the \<open>i\<close> flag: a pattern of lower-case ASCII characters matches at the
  head of the subject when the subject's characters, lower-cased, are the pattern's.
\<close>

fun matchesCI :: "jsstring \<Rightarrow> jsstring \<Rightarrow> bool" where
  "matchesCI [] s = True"
| "matchesCI (t # ts) [] = False"
| "matchesCI (t # ts) (c # cs) = (basicLatinLower c = t \<and> matchesCI ts cs)"

definition copyToken :: jsstring where
  "copyToken = lit ''(copy)''"

text \<open>
  \<open>.replace(/\s*\(copy\)/i, '')\<close>: no \<open>g\<close> flag, so only the leftmost match is
  removed. A match starts at the first position from which a (maximal) run of whitespace is
  followed by the token.
\<close>

fun removeCopy :: "jsstring \<Rightarrow> jsstring" where
  "removeCopy [] = []"
| "removeCopy (c # cs) =
     (let rest = dropWhile isWhitespace (c # cs)
      in if matchesCI copyToken rest then drop (length copyToken) rest
         else c # removeCopy cs)"

definition isVersionToken :: "jsstring \<Rightarrow> bool" where
  "isVersionToken s \<longleftrightarrow> length s = 3 \<and> (matchesCI (lit ''94%'') s \<or> matchesCI (lit ''v94'') s)"

text \<open>
  \<open>.replace(/\s+(94%|v94)$/i, '')\<close>: the match starts at the first position holding a
  whitespace character whose whitespace run is followed by the version token and the end of
  the string.
\<close>

fun removeVersionSuffix :: "jsstring \<Rightarrow> jsstring" where
  "removeVersionSuffix [] = []"
| "removeVersionSuffix (c # cs) =
     (if isWhitespace c \<and> isVersionToken (dropWhile isWhitespace cs) then []
      else c # removeVersionSuffix cs)"

text \<open>The replacement of every trade mark, registered and copyright glyph (a regular
  expression with the \<open>g\<close> flag) by the empty string.\<close>

definition removeSymbols :: "jsstring \<Rightarrow> jsstring" where
  "removeSymbols s = filter (\<lambda>c. \<not> isSymbol c) s"

text \<open>\<open>.replace(/\s+/g, ' ')\<close>: every maximal run of whitespace becomes one space.\<close>

function collapseWhitespace :: "jsstring \<Rightarrow> jsstring" where
  "collapseWhitespace [] = []"
| "collapseWhitespace (c # cs) =
     (if isWhitespace c then 32 # collapseWhitespace (dropWhile isWhitespace cs)
      else c # collapseWhitespace cs)"
  by pat_completeness auto
termination
  by (relation "measure length") (auto simp: less_Suc_eq_le length_dropWhile_le)

text \<open>\<open>normalizeGameName\<close>; \<open>None\<close> is \<open>null\<close>, and \<open>!name\<close> holds of \<open>null\<close> and
  of the empty string.\<close>

definition normalizeGameName :: "caseMapping \<Rightarrow> jsstring option \<Rightarrow> jsstring" where
  "normalizeGameName u name =
     (case name of
        None \<Rightarrow> []
      | Some s \<Rightarrow>
          if s = [] then []
          else trim (collapseWhitespace (removeSymbols (toLowerCase u
                 (removeVersionSuffix (removeCopy (trim s)))))))"


section \<open>Data model\<close>

record FileDetail =
  name :: jsstring
  md5 :: "jsstring option"
  sha1 :: "jsstring option"

record GameInstanceData =
  gameName :: "jsstring option"
  gameCode :: "jsstring option"
  files :: "FileDetail list"

record ExtractedGeminiInfo =
  reportNumber :: "jsstring option"
  certificationDate :: "jsstring option"
  supplierRegistrationNumber :: "jsstring option"
  gameInstances :: "GameInstanceData list"

datatype status = pending | processing | completed | error | queued

text \<open>The field \<open>id\<close> is called \<open>fileId\<close> here; an absent \<open>errorMessage\<close> is \<open>None\<close>.\<close>

record ProcessedFileData =
  fileId :: jsstring
  pdfFileName :: jsstring
  status :: status
  errorMessage :: "jsstring option"
  reportNumber :: "jsstring option"
  certificationDate :: "jsstring option"
  supplierRegistrationNumber :: "jsstring option"
  extractedInstances :: "GameInstanceData list"

record ProviderInfo =
  provider :: jsstring
  portalLiveDate :: "jsstring option"
  imsGameCode :: "jsstring option"

text \<open>
  A JavaScript \<open>Map\<close> keeps its entries in insertion order with distinct keys:
  \<open>set\<close> replaces the value of a key that is present and appends a new key otherwise
  (\<open>AList.update\<close>), \<open>get\<close> is \<open>map_of\<close>, \<open>size\<close> is \<open>length\<close>.
\<close>

type_synonym GameProviderMap = "(jsstring \<times> ProviderInfo) list"

text \<open>The browser's \<open>File\<close>: its \<open>name\<close>, \<open>type\<close>, and content.\<close>

record File =
  fileName :: jsstring
  fileType :: jsstring
  fileBytes :: "nat list"

text \<open>A thrown value: an \<open>Error\<close> with its message, or the \<open>TypeError\<close> of reading a
  property of \<open>null\<close>.\<close>

datatype exn = Error jsstring | TypeError jsstring

fun message :: "exn \<Rightarrow> jsstring" where
  "message (Error m) = m"
| "message (TypeError m) = m"

definition thenE :: "exn + 'a \<Rightarrow> ('a \<Rightarrow> exn + 'b) \<Rightarrow> exn + 'b" where
  "thenE r f = (case r of Inl e \<Rightarrow> Inl e | Inr v \<Rightarrow> f v)"

section \<open>Provider table loader\<close>

text \<open>\<open>x || null\<close> on a string.\<close>

definition orNull :: "jsstring \<Rightarrow> jsstring option" where
  "orNull s = (if s = [] then None else Some s)"

text \<open>The body of \<open>dataLines.forEach\<close> in \<open>handleParseData\<close>, on the pair of
  \<open>newProviderMap\<close> and \<open>validEntries\<close>. The tab is code unit 9, the line feed 10.\<close>

definition parseLine :: "caseMapping \<Rightarrow> jsstring \<Rightarrow> GameProviderMap \<times> nat \<Rightarrow> GameProviderMap \<times> nat" where
  "parseLine u line st =
     (let parts = split 9 line in
      if length parts \<ge> 6 then
        (let gameName = trim (parts ! 0);
             providerName = trim (parts ! 1);
             portalLiveDate = orNull (trim (parts ! 3));
             imsGameCode = orNull (trim (parts ! 5))
         in if gameName \<noteq> [] \<and> providerName \<noteq> [] then
              (let normalizedKey = normalizeGameName u (Some gameName) in
               if normalizedKey \<noteq> [] then
                 (AList.update normalizedKey
                    \<lparr>provider = providerName, portalLiveDate = portalLiveDate,
                     imsGameCode = imsGameCode\<rparr> (fst st),
                  snd st + 1)
               else st)
            else st)
      else st)"

definition dataLinesOf :: "caseMapping \<Rightarrow> jsstring \<Rightarrow> jsstring list" where
  "dataLinesOf u excelData =
     (case split 10 excelData of
        [] \<Rightarrow> []
      | l # ls \<Rightarrow>
          if l \<noteq> [] \<and> includesStr (toLowerCase u l) (lit ''game provider'') then ls
          else l # ls)"

text \<open>\<open>handleParseData\<close>: the map and the count handed to \<open>onDataParsed\<close>.\<close>

definition handleParseData :: "caseMapping \<Rightarrow> jsstring \<Rightarrow> GameProviderMap \<times> nat" where
  "handleParseData u excelData = fold (parseLine u) (dataLinesOf u excelData) ([], 0)"

text \<open>The entry that a line contributes when \<open>handleParseData\<close> accepts it, and the
  entries of the accepted lines of a pasted text, in order.\<close>

definition acceptedEntry :: "caseMapping \<Rightarrow> jsstring \<Rightarrow> (jsstring \<times> ProviderInfo) option" where
  "acceptedEntry u line =
     (let parts = split 9 line in
      if length parts \<ge> 6 \<and> trim (parts ! 0) \<noteq> [] \<and> trim (parts ! 1) \<noteq> [] \<and>
         normalizeGameName u (Some (trim (parts ! 0))) \<noteq> []
      then Some (normalizeGameName u (Some (trim (parts ! 0))),
                 \<lparr>provider = trim (parts ! 1), portalLiveDate = orNull (trim (parts ! 3)),
                  imsGameCode = orNull (trim (parts ! 5))\<rparr>)
      else None)"

definition acceptedEntries :: "caseMapping \<Rightarrow> jsstring \<Rightarrow> (jsstring \<times> ProviderInfo) list" where
  "acceptedEntries u excelData = List.map_filter (acceptedEntry u) (dataLinesOf u excelData)"

section \<open>Authoritative code map\<close>

text \<open>First pass of \<open>copyToClipboard\<close> and \<open>copyForComProcess\<close>: the provider table's
  codes, where \<open>providerInfo.imsGameCode\<close> is truthy.\<close>

definition providerPass :: "GameProviderMap \<Rightarrow> (jsstring \<times> jsstring) list" where
  "providerPass gameProviderMap =
     fold (\<lambda>(gameNameKey, providerInfo) m.
             case imsGameCode providerInfo of
               None \<Rightarrow> m
             | Some code \<Rightarrow> if code \<noteq> [] then AList.update gameNameKey code m else m)
          gameProviderMap []"

text \<open>Second pass: the body of \<open>fileEntry.extractedInstances.forEach\<close>.\<close>

definition instancePass ::
  "caseMapping \<Rightarrow> GameInstanceData \<Rightarrow> (jsstring \<times> jsstring) list \<Rightarrow> (jsstring \<times> jsstring) list" where
  "instancePass u inst m =
     (let gameNameKey = normalizeGameName u (gameName inst) in
      case gameCode inst of
        None \<Rightarrow> m
      | Some code \<Rightarrow>
          if gameNameKey \<noteq> [] \<and> map_of m gameNameKey = None \<and> code \<noteq> []
          then AList.update gameNameKey code m else m)"

definition filePass ::
  "caseMapping \<Rightarrow> ProcessedFileData \<Rightarrow> (jsstring \<times> jsstring) list \<Rightarrow> (jsstring \<times> jsstring) list" where
  "filePass u fileEntry m =
     (if status fileEntry \<noteq> completed then m
      else fold (instancePass u) (extractedInstances fileEntry) m)"

definition authoritativeImsCodeMap ::
  "caseMapping \<Rightarrow> GameProviderMap \<Rightarrow> ProcessedFileData list \<Rightarrow> (jsstring \<times> jsstring) list" where
  "authoritativeImsCodeMap u gameProviderMap data =
     fold (filePass u) data (providerPass gameProviderMap)"


section \<open>Provider-partitioned export\<close>

text \<open>
  The archive is the sequence of calls \<open>zip.folder(folderName).file(originalFile.name,
  originalFile, ...)\<close> made on it, each a pair of the folder's name and the file placed
  there. \<open>zip.folder\<close> of a non-empty name returns an object, so \<open>if (folder)\<close> holds.
\<close>

type_synonym zip = "(jsstring \<times> File) list"

text \<open>The folder of one instance: the provider of its normalized name, the fallback on
  the suffix of its game code, and \<open>providerName?.trim() || 'Uncategorized'\<close>.\<close>

definition folderNameOf :: "caseMapping \<Rightarrow> GameProviderMap \<Rightarrow> GameInstanceData \<Rightarrow> jsstring" where
  "folderNameOf u gameProviderMap inst =
     (let gameNameKey = normalizeGameName u (gameName inst);
          providerInfo = map_of gameProviderMap gameNameKey;
          providerName = map_option provider providerInfo;
          providerName' =
            (if providerName = None \<or> providerName = Some [] then
               (case gameCode inst of
                  None \<Rightarrow> providerName
                | Some code \<Rightarrow>
                    if code \<noteq> [] then
                      (if endsWith code (lit ''_mcg'') then Some (lit ''Games Global'')
                       else if endsWith code (lit ''_prg'') then Some (lit ''Pragmatic'')
                       else providerName)
                    else providerName)
             else providerName)
      in case providerName' of
           None \<Rightarrow> lit ''Uncategorized''
         | Some p \<Rightarrow> if trim p \<noteq> [] then trim p else lit ''Uncategorized'')"

text \<open>The loop over \<open>processedFile.extractedInstances\<close>, on the archive and the set
  \<open>processedFolders\<close> (a JavaScript \<open>Set\<close>, kept as the list of its members).\<close>

fun instanceLoop ::
  "caseMapping \<Rightarrow> GameProviderMap \<Rightarrow> File \<Rightarrow> GameInstanceData list \<Rightarrow> zip \<times> jsstring list \<Rightarrow>
     zip \<times> jsstring list" where
  "instanceLoop u gameProviderMap originalFile [] st = st"
| "instanceLoop u gameProviderMap originalFile (inst # rest) st =
     (let folderName = folderNameOf u gameProviderMap inst in
      if folderName \<notin> set (snd st) then
        instanceLoop u gameProviderMap originalFile rest
          (fst st @ [(folderName, originalFile)], snd st @ [folderName])
      else instanceLoop u gameProviderMap originalFile rest st)"

text \<open>The body of the loop over \<open>filesToZip\<close>, on the archive and \<open>filesAddedToZip\<close>.\<close>

definition exportFile ::
  "caseMapping \<Rightarrow> GameProviderMap \<Rightarrow> (jsstring \<rightharpoonup> File) \<Rightarrow> ProcessedFileData \<Rightarrow> zip \<times> nat \<Rightarrow> zip \<times> nat" where
  "exportFile u gameProviderMap originalFilesMap processedFile st =
     (case originalFilesMap (fileId processedFile) of
        None \<Rightarrow> st
      | Some originalFile \<Rightarrow>
          (let st1 = instanceLoop u gameProviderMap originalFile
                       (extractedInstances processedFile) (fst st, []);
               st2 = (if snd st1 = []
                      then (fst st1 @ [(lit ''Uncategorized'', originalFile)],
                            [lit ''Uncategorized''])
                      else st1)
           in (fst st2, if snd st2 \<noteq> [] then snd st + 1 else snd st)))"

definition exportLoop ::
  "caseMapping \<Rightarrow> GameProviderMap \<Rightarrow> (jsstring \<rightharpoonup> File) \<Rightarrow> ProcessedFileData list \<Rightarrow> zip \<times> nat" where
  "exportLoop u gameProviderMap originalFilesMap processedFiles =
     fold (exportFile u gameProviderMap originalFilesMap)
          (filter (\<lambda>pf. status pf = completed) processedFiles) ([], 0)"

section \<open>Batch orchestrator\<close>

text \<open>The external capabilities used by \<open>handleStartProcessing\<close>: the text layer of a
  PDF, the data URL of an image, and the two entry points of the extraction client.\<close>

record Services =
  extractTextFromPdf :: "File \<Rightarrow> exn + jsstring"
  convertFileToBase64AndGetMime :: "File \<Rightarrow> exn + jsstring \<times> jsstring"
  extractText :: "jsstring \<Rightarrow> jsstring \<Rightarrow> exn + ExtractedGeminiInfo"
  extractImage :: "jsstring \<Rightarrow> jsstring \<Rightarrow> jsstring \<Rightarrow> exn + ExtractedGeminiInfo"

text \<open>The body of the \<open>try\<close> block: the extracted data, or what was thrown.\<close>

definition processFile ::
  "Services \<Rightarrow> (jsstring \<rightharpoonup> File) \<Rightarrow> jsstring \<Rightarrow> ProcessedFileData \<Rightarrow>
     exn + ExtractedGeminiInfo" where
  "processFile sv originalFilesMap apiKey currentFileToProcess =
     (case originalFilesMap (fileId currentFileToProcess) of
        None \<Rightarrow> Inl (Error (lit ''Original file not found for processing.''))
      | Some file \<Rightarrow>
          (let isPdf = (fileType file = lit ''application/pdf'');
               isImage = (startsWith (fileType file) (lit ''image/png'') \<or>
                          startsWith (fileType file) (lit ''image/jpeg''))
           in if isPdf then
                thenE (extractTextFromPdf sv file) (\<lambda>textContent.
                  if trim textContent = [] then
                    Inl (Error (lit ''No text content could be extracted from the PDF.''))
                  else extractText sv textContent apiKey)
              else if isImage then
                thenE (convertFileToBase64AndGetMime sv file) (\<lambda>(base64, mimeType).
                  if base64 = [] then Inl (Error (lit ''Could not convert image to base64.''))
                  else extractImage sv base64 mimeType apiKey)
              else Inl (Error (lit ''Unsupported file type for processing: '' @ fileType file))))"





text \<open>A number in a template string.\<close>

function showNat :: "nat \<Rightarrow> jsstring" where
  "showNat n = (if n < 10 then [48 + n] else showNat (n div 10) @ [48 + n mod 10])"
  by pat_completeness auto
termination
  by (relation "measure (\<lambda>n. n)") auto

declare showNat.simps [simp del]

section \<open>Extraction validator\<close>

text \<open>A value produced by \<open>JSON.parse\<close>; an object is the list of its own properties.
  Numbers are only passed through.\<close>

datatype json =
  JNull | JBool bool | JNum int | JStr jsstring | JArr "json list"
| JObj "(jsstring \<times> json) list"

text \<open>
  The property read \<open>v.k\<close>, for the property names of the extraction schema: it throws on
  \<open>null\<close>, gives the own property of an object, and is \<open>undefined\<close> (\<open>None\<close>)
  otherwise, since no string, number, boolean or array has a property of one of these names.
\<close>

fun getProp :: "json \<Rightarrow> jsstring \<Rightarrow> exn + json option" where
  "getProp JNull k =
     Inl (TypeError (lit ''Cannot read properties of null (reading '' @ [39] @ k @ [39] @ lit '')''))"
| "getProp (JObj kvs) k = Inr (map_of kvs k)"
| "getProp v k = Inr None"

fun isArray :: "json option \<Rightarrow> bool" where
  "isArray (Some (JArr xs)) = True"
| "isArray v = False"

fun elements :: "json option \<Rightarrow> json list" where
  "elements (Some (JArr xs)) = xs"
| "elements v = []"

text \<open>\<open>x ?? null\<close>, and \<open>x === undefined ? null : x\<close>.\<close>

fun nullish :: "json option \<Rightarrow> json" where
  "nullish None = JNull"
| "nullish (Some v) = v"

fun undefinedToNull :: "json option \<Rightarrow> json" where
  "undefinedToNull None = JNull"
| "undefinedToNull (Some v) = v"

text \<open>A loop that stops at the first throw, and a \<open>map\<close> whose callback may throw.\<close>

fun forEachE :: "('a \<Rightarrow> exn + unit) \<Rightarrow> 'a list \<Rightarrow> exn + unit" where
  "forEachE f [] = Inr ()"
| "forEachE f (x # xs) = thenE (f x) (\<lambda>_. forEachE f xs)"

fun mapE :: "('a \<Rightarrow> exn + 'b) \<Rightarrow> 'a list \<Rightarrow> exn + 'b list" where
  "mapE f [] = Inr []"
| "mapE f (x # xs) = thenE (f x) (\<lambda>y. thenE (mapE f xs) (\<lambda>ys. Inr (y # ys)))"

definition structureError :: exn where
  "structureError = Error (lit (''Parsed JSON does not match expected structure (missing reportNumber, '' @
     ''certificationDate, supplierRegistrationNumber, or gameInstances array).''))"

definition instanceError :: exn where
  "instanceError = Error (lit
     ''Parsed JSON for a game instance is invalid (missing gameName, gameCode, or files array).'')"

definition fileEntryError :: exn where
  "fileEntryError = Error (lit ''Parsed JSON for a file entry is invalid (missing name).'')"

text \<open>The checks of \<open>validateAndStructureData\<close>, in the order of the source.\<close>

definition checkFile :: "json \<Rightarrow> exn + unit" where
  "checkFile file =
     thenE (getProp file (lit ''name'')) (\<lambda>n.
       case n of Some (JStr s) \<Rightarrow> Inr () | _ \<Rightarrow> Inl fileEntryError)"

definition checkInstance :: "json \<Rightarrow> exn + unit" where
  "checkInstance inst =
     thenE (getProp inst (lit ''gameName'')) (\<lambda>gn.
       if gn = None then Inl instanceError
       else thenE (getProp inst (lit ''gameCode'')) (\<lambda>gc.
         if gc = None then Inl instanceError
         else thenE (getProp inst (lit ''files'')) (\<lambda>fs.
           if \<not> isArray fs then Inl instanceError
           else forEachE checkFile (elements fs))))"

definition checkTopLevel :: "json \<Rightarrow> exn + unit" where
  "checkTopLevel parsedData =
     thenE (getProp parsedData (lit ''reportNumber'')) (\<lambda>rn.
       if rn = None then Inl structureError
       else thenE (getProp parsedData (lit ''certificationDate'')) (\<lambda>cd.
         if cd = None then Inl structureError
         else thenE (getProp parsedData (lit ''supplierRegistrationNumber'')) (\<lambda>sr.
           if sr = None then Inl structureError
           else thenE (getProp parsedData (lit ''gameInstances'')) (\<lambda>gi.
             if \<not> isArray gi then Inl structureError
             else forEachE checkInstance (elements gi)))))"

text \<open>The object literal \<open>validatedData\<close>. A property whose value is \<open>undefined\<close>
  (a file's \<open>name\<close>, were it not checked before) is left out of the object.\<close>

definition structureFile :: "json \<Rightarrow> exn + json" where
  "structureFile f =
     thenE (getProp f (lit ''name'')) (\<lambda>n.
     thenE (getProp f (lit ''md5'')) (\<lambda>m.
     thenE (getProp f (lit ''sha1'')) (\<lambda>s.
       Inr (JObj ((case n of None \<Rightarrow> [] | Some v \<Rightarrow> [(lit ''name'', v)]) @
                  [(lit ''md5'', undefinedToNull m), (lit ''sha1'', undefinedToNull s)])))))"

definition structureInstance :: "json \<Rightarrow> exn + json" where
  "structureInstance inst =
     thenE (getProp inst (lit ''gameName'')) (\<lambda>gn.
     thenE (getProp inst (lit ''gameCode'')) (\<lambda>gc.
     thenE (getProp inst (lit ''files'')) (\<lambda>fs.
     thenE (mapE structureFile (elements fs)) (\<lambda>fs'.
       Inr (JObj [(lit ''gameName'', nullish gn), (lit ''gameCode'', nullish gc),
                  (lit ''files'', JArr fs')])))))"

definition structureData :: "json \<Rightarrow> exn + json" where
  "structureData parsedData =
     thenE (getProp parsedData (lit ''reportNumber'')) (\<lambda>rn.
     thenE (getProp parsedData (lit ''certificationDate'')) (\<lambda>cd.
     thenE (getProp parsedData (lit ''supplierRegistrationNumber'')) (\<lambda>sr.
     thenE (getProp parsedData (lit ''gameInstances'')) (\<lambda>gi.
     thenE (mapE structureInstance (elements gi)) (\<lambda>gi'.
       Inr (JObj [(lit ''reportNumber'', nullish rn), (lit ''certificationDate'', nullish cd),
                  (lit ''supplierRegistrationNumber'', nullish sr),
                  (lit ''gameInstances'', JArr gi')]))))))"

definition validateAndStructureData :: "json \<Rightarrow> jsstring \<Rightarrow> exn + json" where
  "validateAndStructureData parsedData rawResponseText =
     thenE (checkTopLevel parsedData) (\<lambda>_. structureData parsedData)"

text \<open>
  The conditions of the specification, in its words: a key is absent when the value has
  no property of that name; a sequence is an array.
\<close>

fun spec_lookup :: "json \<Rightarrow> jsstring \<Rightarrow> json option" where
  "spec_lookup (JObj kvs) k = map_of kvs k"
| "spec_lookup v k = None"

fun spec_isString :: "json option \<Rightarrow> bool" where
  "spec_isString (Some (JStr s)) = True"
| "spec_isString v = False"

definition spec_fileViolation :: "json \<Rightarrow> bool" where
  "spec_fileViolation f \<longleftrightarrow> \<not> spec_isString (spec_lookup f (lit ''name''))"

definition spec_instanceViolation :: "json \<Rightarrow> bool" where
  "spec_instanceViolation i \<longleftrightarrow>
     spec_lookup i (lit ''gameName'') = None \<or> spec_lookup i (lit ''gameCode'') = None \<or>
     \<not> isArray (spec_lookup i (lit ''files'')) \<or>
     list_ex spec_fileViolation (elements (spec_lookup i (lit ''files'')))"

definition spec_schemaViolation :: "json \<Rightarrow> bool" where
  "spec_schemaViolation p \<longleftrightarrow>
     spec_lookup p (lit ''reportNumber'') = None \<or>
     spec_lookup p (lit ''certificationDate'') = None \<or>
     spec_lookup p (lit ''supplierRegistrationNumber'') = None \<or>
     \<not> isArray (spec_lookup p (lit ''gameInstances'')) \<or>
     list_ex spec_instanceViolation (elements (spec_lookup p (lit ''gameInstances'')))"

section \<open>Extraction client\<close>

definition MAX_RETRIES :: nat where
  "MAX_RETRIES = 3"

definition RETRY_DELAY_MS :: nat where
  "RETRY_DELAY_MS = 1000"

text \<open>What one call of \<open>ai.models.generateContent\<close> does: it throws, or it returns a
  response with this \<open>text\<close>.\<close>

datatype response = Throws exn | Responds jsstring

definition isWordChar :: "nat \<Rightarrow> bool" where
  "isWordChar c \<longleftrightarrow> (48 \<le> c \<and> c \<le> 57) \<or> (65 \<le> c \<and> c \<le> 90) \<or> (97 \<le> c \<and> c \<le> 122) \<or> c = 95"

text \<open>
  The fence expression, anchored at both ends, with the \<open>s\<close> flag: three backticks, word
  characters, whitespace, the lazily matched second group, whitespace, three backticks.
  The group is what lies between the leading language tag and whitespace and the
  whitespace before the closing fence; \<open>jsonStr\<close> is replaced when the group is not empty.
\<close>

definition fenceGroup :: "jsstring \<Rightarrow> jsstring option" where
  "fenceGroup s =
     (if length s \<ge> 6 \<and> take 3 s = lit ''```'' \<and> drop (length s - 3) s = lit ''```'' then
        Some (rev (dropWhile isWhitespace (rev
          (dropWhile isWhitespace (dropWhile isWordChar (take (length s - 6) (drop 3 s)))))))
      else None)"

definition stripFence :: "jsstring \<Rightarrow> jsstring" where
  "stripFence jsonStr =
     (case fenceGroup jsonStr of
        None \<Rightarrow> jsonStr
      | Some g \<Rightarrow> if g \<noteq> [] then trim g else jsonStr)"

text \<open>
  The body of the outer \<open>try\<close> for one attempt. \<open>parse\<close> is \<open>JSON.parse\<close>; \<open>label\<close> is
  \<open>text\<close> or \<open>image\<close>, the only difference between the two entry points here.
\<close>

definition attempt ::
  "jsstring \<Rightarrow> (jsstring \<Rightarrow> exn + json) \<Rightarrow> response \<Rightarrow> exn + json" where
  "attempt label parse r =
     (case r of
        Throws e \<Rightarrow> Inl e
      | Responds text \<Rightarrow>
          (let jsonStr = stripFence (trim text) in
           case thenE (parse jsonStr) (\<lambda>parsedData. validateAndStructureData parsedData text) of
             Inr v \<Rightarrow> Inr v
           | Inl e \<Rightarrow>
               Inl (Error (lit ''Failed to parse/validate JSON from AI ('' @ label @
                           lit ''). Raw: '' @ take 1000 text @ lit ''. Err: '' @ message e))))"

text \<open>What an entry point did: its result, the number of model requests it made, and the
  delays it waited, in milliseconds.\<close>

record extraction =
  outcome :: "exn + json"
  requests :: nat
  delays :: "nat list"

text \<open>
  The \<open>for\<close> loop from attempt number \<open>n\<close> on; \<open>api n\<close> is what the \<open>n\<close>-th request
  does. A \<open>catch\<close> block that neither throws nor continues falls through to the next
  iteration as well.
\<close>

function retryLoop ::
  "jsstring \<Rightarrow> (jsstring \<Rightarrow> exn + json) \<Rightarrow> (nat \<Rightarrow> response) \<Rightarrow> nat \<Rightarrow> exn option \<Rightarrow>
     nat \<Rightarrow> nat list \<Rightarrow> extraction" where
  "retryLoop label parse api n lastError made waited =
     (if n \<le> MAX_RETRIES then
        (case attempt label parse (api n) of
           Inr v \<Rightarrow> \<lparr>outcome = Inr v, requests = made + 1, delays = waited\<rparr>
         | Inl err \<Rightarrow>
             if includesStr (message err) (lit ''API key not valid'') then
               \<lparr>outcome = Inl (Error (lit
                   ''The provided API Key is invalid or has been rejected by Google.'')),
                requests = made + 1, delays = waited\<rparr>
             else if includesStr (message err) (lit ''500'') \<and> n < MAX_RETRIES then
               retryLoop label parse api (n + 1) (Some err) (made + 1)
                 (waited @ [RETRY_DELAY_MS * n])
             else retryLoop label parse api (n + 1) (Some err) (made + 1) waited)
      else
        \<lparr>outcome = Inl (case lastError of
                          Some e \<Rightarrow> e
                        | None \<Rightarrow> Error (lit ''Failed to extract info from '' @ label @
                                          lit '' after '' @ showNat MAX_RETRIES @ lit '' attempts.'')),
         requests = made, delays = waited\<rparr>)"
  by pat_completeness auto
termination
  by (relation "measure (\<lambda>(label, parse, api, n, lastError, made, waited). Suc MAX_RETRIES - n)")
     auto

declare retryLoop.simps [simp del]

definition extractInfoFromText ::
  "(jsstring \<Rightarrow> exn + json) \<Rightarrow> (nat \<Rightarrow> response) \<Rightarrow> jsstring \<Rightarrow> jsstring \<Rightarrow> extraction" where
  "extractInfoFromText parse api ocrText apiKey =
     (if apiKey = [] then
        \<lparr>outcome = Inl (Error (lit ''API Key is not provided.'')), requests = 0, delays = []\<rparr>
      else retryLoop (lit ''text'') parse api 1 None 0 [])"

definition extractInfoFromImage ::
  "(jsstring \<Rightarrow> exn + json) \<Rightarrow> (nat \<Rightarrow> response) \<Rightarrow> jsstring \<Rightarrow> jsstring \<Rightarrow> jsstring \<Rightarrow>
     extraction" where
  "extractInfoFromImage parse api imageBase64 mimeType apiKey =
     (if apiKey = [] then
        \<lparr>outcome = Inl (Error (lit ''API Key is not provided.'')), requests = 0, delays = []\<rparr>
      else retryLoop (lit ''image'') parse api 1 None 0 [])"

section \<open>Application state and its handlers\<close>

text \<open>The state of the \<open>App\<close> component.\<close>

record App =
  apiKey :: jsstring
  processedFiles :: "ProcessedFileData list"
  originalFilesMap :: "jsstring \<rightharpoonup> File"
  isBatchProcessing :: bool
  isZipping :: bool
  gameProviderMap :: GameProviderMap
  providerDataStatus :: jsstring

text \<open>
  \<open>handleExportZip\<close>: the state it leaves and the archive it hands to the download, if
  any. \<open>generateAsync\<close> is the archive writer, which may throw.
\<close>

definition handleExportZip :: "caseMapping \<Rightarrow> (zip \<Rightarrow> exn + zip) \<Rightarrow> App \<Rightarrow> App \<times> zip option" where
  "handleExportZip u generateAsync app =
     (if isZipping app \<or> isBatchProcessing app \<or>
         length (filter (\<lambda>f. status f = completed) (processedFiles app)) = 0 \<or>
         length (gameProviderMap app) = 0
      then (app, None)
      else
        (let r = exportLoop u (gameProviderMap app) (originalFilesMap app) (processedFiles app);
             filesAddedToZip = snd r
         in if filesAddedToZip = 0 then
              (app\<lparr>providerDataStatus :=
                     lit ''No files could be mapped to providers or added to Uncategorized.'',
                   isZipping := False\<rparr>, None)
            else
              (case generateAsync (fst r) of
                 Inr zipBlob \<Rightarrow>
                   (app\<lparr>providerDataStatus :=
                          lit ''Successfully exported '' @ showNat filesAddedToZip @
                          lit '' file(s) in ZIP.'',
                        isZipping := False\<rparr>, Some zipBlob)
               | Inl e \<Rightarrow>
                   (app\<lparr>providerDataStatus :=
                          lit ''Error generating ZIP file. See console for details.'',
                        isZipping := False\<rparr>, None))))"



text \<open>
  For the statements about the map: the truthy code of a key's table entry, and the truthy
  codes extracted for a key, in file-then-instance order over the completed files.
\<close>

definition truthy :: "jsstring option \<Rightarrow> jsstring option" where
  "truthy v = (case v of None \<Rightarrow> None | Some s \<Rightarrow> if s \<noteq> [] then Some s else None)"

definition tableCode :: "GameProviderMap \<Rightarrow> jsstring \<Rightarrow> jsstring option" where
  "tableCode gpm k = (case map_of gpm k of None \<Rightarrow> None | Some info \<Rightarrow> truthy (imsGameCode info))"

definition instanceCodes :: "caseMapping \<Rightarrow> jsstring \<Rightarrow> GameInstanceData list \<Rightarrow> jsstring list" where
  "instanceCodes u k insts =
     List.map_filter (\<lambda>i. if normalizeGameName u (gameName i) = k then truthy (gameCode i) else None) insts"

definition extractedCodes :: "caseMapping \<Rightarrow> jsstring \<Rightarrow> ProcessedFileData list \<Rightarrow> jsstring list" where
  "extractedCodes u k data =
     concat (map (\<lambda>f. if status f = completed then instanceCodes u k (extractedInstances f) else []) data)"

fun firstOf :: "'a list \<Rightarrow> 'a option" where
  "firstOf [] = None"
| "firstOf (x # xs) = Some x"

definition orElse :: "'a option \<Rightarrow> 'a option \<Rightarrow> 'a option" where
  "orElse a b = (case a of None \<Rightarrow> b | Some x \<Rightarrow> Some x)"

text \<open>For the statements about the export: the folder names that the loop over a file's
  instances adds to \<open>processedFolders\<close>, given the names already there.\<close>

fun newFolders :: "jsstring list \<Rightarrow> jsstring list \<Rightarrow> jsstring list" where
  "newFolders seen [] = []"
| "newFolders seen (d # ds) =
     (if d \<in> set seen then newFolders seen ds else d # newFolders (seen @ [d]) ds)"

text \<open>For the statements about a batch: what the loop of \<open>handleStartProcessing\<close> makes
  of the entry of a file it processes.\<close>

definition finishFile ::
  "Services \<Rightarrow> (jsstring \<rightharpoonup> File) \<Rightarrow> jsstring \<Rightarrow> ProcessedFileData \<Rightarrow> ProcessedFileData" where
  "finishFile sv ofm key f =
     (case processFile sv ofm key f of
        Inr extractedData \<Rightarrow>
          f\<lparr>reportNumber := ExtractedGeminiInfo.reportNumber extractedData,
            certificationDate := ExtractedGeminiInfo.certificationDate extractedData,
            supplierRegistrationNumber :=
              ExtractedGeminiInfo.supplierRegistrationNumber extractedData,
            extractedInstances := gameInstances extractedData,
            status := completed\<rparr>
      | Inl err \<Rightarrow>
          f\<lparr>status := error,
            errorMessage := Some (if message err \<noteq> [] then message err
                                  else lit ''Failed to process file or extract data.'')\<rparr>)"

text \<open>The result that the specification describes for an input without a violation: every
  field present, \<open>null\<close> where the input has \<open>null\<close> or nothing.\<close>

definition spec_structuredFile :: "json \<Rightarrow> json" where
  "spec_structuredFile f =
     JObj [(lit ''name'', nullish (spec_lookup f (lit ''name''))),
           (lit ''md5'', nullish (spec_lookup f (lit ''md5''))),
           (lit ''sha1'', nullish (spec_lookup f (lit ''sha1'')))]"

definition spec_structuredInstance :: "json \<Rightarrow> json" where
  "spec_structuredInstance i =
     JObj [(lit ''gameName'', nullish (spec_lookup i (lit ''gameName''))),
           (lit ''gameCode'', nullish (spec_lookup i (lit ''gameCode''))),
           (lit ''files'', JArr (map spec_structuredFile (elements (spec_lookup i (lit ''files'')))))]"

definition spec_structured :: "json \<Rightarrow> json" where
  "spec_structured p =
     JObj [(lit ''reportNumber'', nullish (spec_lookup p (lit ''reportNumber''))),
           (lit ''certificationDate'', nullish (spec_lookup p (lit ''certificationDate''))),
           (lit ''supplierRegistrationNumber'',
              nullish (spec_lookup p (lit ''supplierRegistrationNumber''))),
           (lit ''gameInstances'',
              JArr (map spec_structuredInstance (elements (spec_lookup p (lit ''gameInstances'')))))]"

text \<open>
  For the statements about the normalizer: a string contains a \<open>(copy)\<close> token, in any
  letter case; it ends in whitespace followed by a version token; it is trimmed; its
  whitespace is collapsed (every whitespace character is a single space between others).
\<close>

fun hasCopyToken :: "jsstring \<Rightarrow> bool" where
  "hasCopyToken [] = False"
| "hasCopyToken (c # cs) = (matchesCI copyToken (c # cs) \<or> hasCopyToken cs)"

fun hasVersionSuffix :: "jsstring \<Rightarrow> bool" where
  "hasVersionSuffix [] = False"
| "hasVersionSuffix (c # cs) = ((isWhitespace c \<and> isVersionToken cs) \<or> hasVersionSuffix cs)"

definition trimmed :: "jsstring \<Rightarrow> bool" where
  "trimmed s \<longleftrightarrow> s = [] \<or> (\<not> isWhitespace (hd s) \<and> \<not> isWhitespace (last s))"

fun collapsed :: "jsstring \<Rightarrow> bool" where
  "collapsed [] = True"
| "collapsed [c] = (isWhitespace c \<longrightarrow> c = 32)"
| "collapsed (c # d # cs) =
     ((isWhitespace c \<longrightarrow> c = 32 \<and> \<not> isWhitespace d) \<and> collapsed (d # cs))"

text \<open>
  For the statements about the archive: the calls that the export makes for one processed
  file, and what the archive holds after a sequence of calls. JSZip keeps one entry for
  each path, the folder's name, a slash (code unit 47) and the file's name; a call with the
  path of an entry replaces that entry's content.
\<close>

definition placements ::
  "caseMapping \<Rightarrow> GameProviderMap \<Rightarrow> (jsstring \<rightharpoonup> File) \<Rightarrow> ProcessedFileData \<Rightarrow> zip" where
  "placements u gpm ofm pf =
     (case ofm (fileId pf) of
        None \<Rightarrow> []
      | Some f \<Rightarrow>
          map (\<lambda>d. (d, f))
            (if extractedInstances pf = [] then [lit ''Uncategorized'']
             else newFolders [] (map (folderNameOf u gpm) (extractedInstances pf))))"

definition pathOf :: "jsstring \<Rightarrow> File \<Rightarrow> jsstring" where
  "pathOf folderName file = folderName @ [47] @ fileName file"

definition archiveOf :: "zip \<Rightarrow> (jsstring \<times> File) list" where
  "archiveOf calls = fold (\<lambda>(folderName, file). AList.update (pathOf folderName file) file) calls []"

section \<open>Evaluation\<close>

text \<open>The definitions that evaluate the normalizer on a literal.\<close>

lemmas normalize_eval =
  normalizeGameName_def trim_def copyToken_def isWhitespace_def basicLatinLower_def toLowerCase_def
  knownCase_def removeSymbols_def isSymbol_def isVersionToken_def lit_def

section \<open>The retry loop of the extraction client\<close>

lemma retryLoop_past: "n > MAX_RETRIES \<Longrightarrow>
  retryLoop label parse api n (Some e) made waited = \<lparr>outcome = Inl e, requests = made, delays = waited\<rparr>"
  by (subst retryLoop.simps) simp

lemma retryLoop_transient:
  assumes "n < MAX_RETRIES" "attempt label parse (api n) = Inl err"
    "includesStr (message err) (lit ''500'')" "\<not> includesStr (message err) (lit ''API key not valid'')"
    "m = n + 1" "made' = made + 1" "waited' = waited @ [RETRY_DELAY_MS * n]"
  shows "retryLoop label parse api n lastError made waited =
         retryLoop label parse api m (Some err) made' waited'"
  using assms by (subst retryLoop.simps) simp

lemma retryLoop_fallthrough:
  assumes "n \<le> MAX_RETRIES" "attempt label parse (api n) = Inl err"
    "\<not> (includesStr (message err) (lit ''500'') \<and> n < MAX_RETRIES)"
    "\<not> includesStr (message err) (lit ''API key not valid'')"
    "m = n + 1" "made' = made + 1"
  shows "retryLoop label parse api n lastError made waited =
         retryLoop label parse api m (Some err) made' waited"
  using assms by (subst retryLoop.simps) auto

lemma retryLoop_all_transient:
  assumes "\<forall>n. 1 \<le> n \<and> n \<le> MAX_RETRIES \<longrightarrow>
             api n = Throws (thrown n) \<and> includesStr (message (thrown n)) (lit ''500'') \<and>
             \<not> includesStr (message (thrown n)) (lit ''API key not valid'')"
  shows "retryLoop label parse api 1 None 0 [] =
           \<lparr>outcome = Inl (thrown 3), requests = 3, delays = [1000, 2000]\<rparr>"
proof -
  have a: "attempt label parse (api n) = Inl (thrown n)" if "1 \<le> n" "n \<le> 3" for n
    using assms that by (simp add: attempt_def MAX_RETRIES_def)
  have t: "includesStr (message (thrown n)) (lit ''500'')"
          "\<not> includesStr (message (thrown n)) (lit ''API key not valid'')" if "1 \<le> n" "n \<le> 3" for n
    using assms that by (simp_all add: MAX_RETRIES_def)
  have "retryLoop label parse api 1 None 0 [] = retryLoop label parse api 2 (Some (thrown 1)) 1 [1000]"
    by (rule retryLoop_transient[OF _ a t]) (simp_all add: MAX_RETRIES_def RETRY_DELAY_MS_def)
  also have "\<dots> = retryLoop label parse api 3 (Some (thrown 2)) 2 [1000, 2000]"
    by (rule retryLoop_transient[OF _ a t]) (simp_all add: MAX_RETRIES_def RETRY_DELAY_MS_def)
  also have "\<dots> = retryLoop label parse api 4 (Some (thrown 3)) 3 [1000, 2000]"
    by (rule retryLoop_fallthrough[OF _ a _ t(2)]) (simp_all add: MAX_RETRIES_def)
  also have "\<dots> = \<lparr>outcome = Inl (thrown 3), requests = 3, delays = [1000, 2000]\<rparr>"
    by (rule retryLoop_past) (simp add: MAX_RETRIES_def)
  finally show ?thesis .
qed

text \<open>
  C8. When every one of the three requests throws an error whose message contains
  \<open>500\<close> (and does not report an invalid key), each entry point makes exactly
  \<open>MAX_RETRIES = 3\<close> requests, waits 1000 ms after the first and 2000 ms after the
  second, and then throws the error of the last request.
\<close>

theorem retry_bound:
  assumes "key \<noteq> []"
    and "\<forall>n. 1 \<le> n \<and> n \<le> MAX_RETRIES \<longrightarrow>
             api n = Throws (thrown n) \<and> includesStr (message (thrown n)) (lit ''500'') \<and>
             \<not> includesStr (message (thrown n)) (lit ''API key not valid'')"
  shows "extractInfoFromText parse api ocrText key =
           \<lparr>outcome = Inl (thrown MAX_RETRIES), requests = MAX_RETRIES,
            delays = [RETRY_DELAY_MS * 1, RETRY_DELAY_MS * 2]\<rparr> \<and>
         extractInfoFromImage parse api imageBase64 mimeType key =
           \<lparr>outcome = Inl (thrown MAX_RETRIES), requests = MAX_RETRIES,
            delays = [RETRY_DELAY_MS * 1, RETRY_DELAY_MS * 2]\<rparr>"
  using assms retryLoop_all_transient[of api thrown]
  by (simp add: extractInfoFromText_def extractInfoFromImage_def MAX_RETRIES_def RETRY_DELAY_MS_def)

text \<open>C8 at a server that answers every request with a 500 error.\<close>

theorem retry_bound_witness:
  "extractInfoFromText (\<lambda>s. Inr JNull) (\<lambda>n. Throws (Error (lit ''500 Internal Server Error'')))
      (lit ''report'') (lit ''key'') =
     \<lparr>outcome = Inl (Error (lit ''500 Internal Server Error'')), requests = 3, delays = [1000, 2000]\<rparr> \<and>
   extractInfoFromImage (\<lambda>s. Inr JNull) (\<lambda>n. Throws (Error (lit ''500 Internal Server Error'')))
      (lit ''aGVsbG8='') (lit ''image/png'') (lit ''key'') =
     \<lparr>outcome = Inl (Error (lit ''500 Internal Server Error'')), requests = 3, delays = [1000, 2000]\<rparr>"
  using retry_bound[of "lit ''key''" "\<lambda>n. Throws (Error (lit ''500 Internal Server Error''))"
      "\<lambda>n. Error (lit ''500 Internal Server Error'')" "\<lambda>s. Inr JNull" "lit ''report''"
      "lit ''aGVsbG8=''" "lit ''image/png''"]
  by (simp add: lit_def MAX_RETRIES_def RETRY_DELAY_MS_def)


subsection \<open>Parse failures\<close>

text \<open>
  The error of a failed parse or validation is thrown inside the outer \<open>try\<close>, so the
  outer \<open>catch\<close> receives it; unless its message reports an invalid key, the loop goes on
  to the next attempt. Every attempt that fails this way costs a request.
\<close>

lemma retryLoop_requests_failures:
  assumes "\<forall>k. n \<le> k \<and> k \<le> MAX_RETRIES \<longrightarrow>
             (\<exists>err. attempt label parse (api k) = Inl err \<and>
                    \<not> includesStr (message err) (lit ''API key not valid''))"
  shows "requests (retryLoop label parse api n lastError made waited) = made + (Suc MAX_RETRIES - n)"
  using assms
proof (induction label parse api n lastError made waited rule: retryLoop.induct)
  case (1 label parse api n lastError made waited)
  show ?case
  proof (cases "n \<le> MAX_RETRIES")
    case False
    then show ?thesis by (subst retryLoop.simps) simp
  next
    case True
    then obtain err where e: "attempt label parse (api n) = Inl err"
      "\<not> includesStr (message err) (lit ''API key not valid'')"
      using "1.prems" by blast
    have rest: "\<forall>k. n + 1 \<le> k \<and> k \<le> MAX_RETRIES \<longrightarrow>
             (\<exists>err. attempt label parse (api k) = Inl err \<and>
                    \<not> includesStr (message err) (lit ''API key not valid''))"
      using "1.prems" by simp
    show ?thesis
    proof (cases "includesStr (message err) (lit ''500'') \<and> n < MAX_RETRIES")
      case True
      with \<open>n \<le> MAX_RETRIES\<close> e "1.IH"(1)[OF _ e(1) e(2) True rest] show ?thesis
        by (subst retryLoop.simps) auto
    next
      case False
      with \<open>n \<le> MAX_RETRIES\<close> e "1.IH"(2)[OF _ e(1) e(2) False rest] show ?thesis
        by (subst retryLoop.simps) auto
    qed
  qed
qed

lemma attempt_parse_failure:
  "parse (stripFence (trim text)) = Inl e \<Longrightarrow>
   attempt label parse (Responds text) =
     Inl (Error (lit ''Failed to parse/validate JSON from AI ('' @ label @
                 lit ''). Raw: '' @ take 1000 text @ lit ''. Err: '' @ message e))"
  by (simp add: attempt_def thenE_def)

text \<open>
  C4. A response whose text is not JSON, returned to every request: the entry points make
  three requests, not one, before the error is thrown.
\<close>

theorem parse_failure_is_retried:
  "extractInfoFromText (\<lambda>s. Inl (Error (lit ''Unexpected token''))) (\<lambda>n. Responds (lit ''not json''))
      (lit ''report'') (lit ''key'') =
     \<lparr>outcome = Inl (Error (lit
        ''Failed to parse/validate JSON from AI (text). Raw: not json. Err: Unexpected token'')),
      requests = 3, delays = []\<rparr> \<and>
   extractInfoFromImage (\<lambda>s. Inl (Error (lit ''Unexpected token''))) (\<lambda>n. Responds (lit ''not json''))
      (lit ''aGVsbG8='') (lit ''image/png'') (lit ''key'') =
     \<lparr>outcome = Inl (Error (lit
        ''Failed to parse/validate JSON from AI (image). Raw: not json. Err: Unexpected token'')),
      requests = 3, delays = []\<rparr>"
  by (simp add: extractInfoFromText_def extractInfoFromImage_def retryLoop.simps attempt_def
      thenE_def lit_def MAX_RETRIES_def)


section \<open>The provider table and its count\<close>

lemma parseLine_acceptedEntry:
  "parseLine u line st =
     (case acceptedEntry u line of
        None \<Rightarrow> st
      | Some (k, v) \<Rightarrow> (AList.update k v (fst st), snd st + 1))"
  by (simp add: parseLine_def acceptedEntry_def Let_def)

lemma fold_parseLine:
  "fold (parseLine u) ls (m, n) =
     (fold (\<lambda>(k, v). AList.update k v) (List.map_filter (acceptedEntry u) ls) m,
      n + length (List.map_filter (acceptedEntry u) ls))"
proof (induction ls arbitrary: m n)
  case Nil
  then show ?case by (simp add: List.map_filter_simps)
next
  case (Cons l ls)
  show ?case
  proof (cases "acceptedEntry u l")
    case None
    then show ?thesis using Cons.IH[of m n]
      by (simp add: parseLine_acceptedEntry List.map_filter_simps)
  next
    case (Some kv)
    obtain k v where kv: "kv = (k, v)" by (cases kv)
    show ?thesis using Cons.IH[of "AList.update k v m" "n + 1"] Some kv
      by (simp add: parseLine_acceptedEntry List.map_filter_simps)
  qed
qed

lemma keys_fold_update:
  "fst ` set (fold (\<lambda>(k, v). AList.update k v) es m) = fst ` set m \<union> fst ` set es"
proof (induction es arbitrary: m)
  case Nil
  then show ?case by simp
next
  case (Cons e es)
  obtain k v where e: "e = (k, v)" by (cases e)
  have "fst ` set (AList.update k v m) = {k} \<union> fst ` set m"
    by (rule AList.dom_update)
  then show ?case using Cons.IH[of "AList.update k v m"] e by auto
qed

lemma distinct_fold_update:
  "distinct (map fst m) \<Longrightarrow> distinct (map fst (fold (\<lambda>(k, v). AList.update k v) es m))"
  by (induction es arbitrary: m) (auto simp: AList.distinct_update)

lemma map_of_fold_update:
  "map_of (fold (\<lambda>(k, v). AList.update k v) es m) = map_of m ++ map_of (rev es)"
  by (induction es arbitrary: m) (auto simp: AList.update_conv' map_add_def fun_eq_iff split: option.splits)

text \<open>Every entry of a table built by the loader has a non-empty key and provider, and an
  \<open>imsGameCode\<close> that is \<open>null\<close> or not empty.\<close>

lemma set_fold_update:
  "set (fold (\<lambda>(k, v). AList.update k v) es m) \<subseteq> set m \<union> set es"
proof (induction es arbitrary: m)
  case Nil
  then show ?case by simp
next
  case (Cons e es)
  obtain k v where e: "e = (k, v)" by (cases e)
  have "set (AList.update k v m) \<subseteq> insert (k, v) (set m)"
    by (induction m) auto
  with Cons.IH[of "AList.update k v m"] e show ?case by auto
qed

lemma acceptedEntry_nonempty:
  "acceptedEntry u line = Some (k, info) \<Longrightarrow>
     k \<noteq> [] \<and> provider info \<noteq> [] \<and> imsGameCode info \<noteq> Some [] \<and> portalLiveDate info \<noteq> Some []"
  by (auto simp: acceptedEntry_def Let_def orNull_def split: if_splits)

lemma loader_entries_nonempty:
  assumes "(k, info) \<in> set (fst (handleParseData u t))"
  shows "k \<noteq> [] \<and> provider info \<noteq> [] \<and> imsGameCode info \<noteq> Some []"
proof -
  have "fst (handleParseData u t) = fold (\<lambda>(k, v). AList.update k v) (acceptedEntries u t) []"
    by (simp add: handleParseData_def acceptedEntries_def fold_parseLine)
  with assms have "(k, info) \<in> set (acceptedEntries u t)"
    using set_fold_update[of "acceptedEntries u t" "[]"] by auto
  then obtain line where "acceptedEntry u line = Some (k, info)"
    by (auto simp: acceptedEntries_def List.map_filter_def)
  then show ?thesis using acceptedEntry_nonempty by blast
qed

text \<open>
  C10. The count returned by the loader is the number of accepted lines; the table has one
  entry for each distinct key among them, so the count is at least the size of the table,
  and greater when two accepted lines have the same key; the table then holds the entry of
  the last such line.
\<close>

theorem loader_count:
  "snd (handleParseData u t) = length (acceptedEntries u t) \<and>
   distinct (map fst (fst (handleParseData u t))) \<and>
   length (fst (handleParseData u t)) = card (fst ` set (acceptedEntries u t)) \<and>
   length (fst (handleParseData u t)) \<le> snd (handleParseData u t) \<and>
   (\<not> distinct (map fst (acceptedEntries u t)) \<longrightarrow>
      length (fst (handleParseData u t)) < snd (handleParseData u t)) \<and>
   map_of (fst (handleParseData u t)) = map_of (rev (acceptedEntries u t))"
proof -
  let ?es = "acceptedEntries u t"
  let ?m = "fold (\<lambda>(k, v). AList.update k v) ?es []"
  have r: "handleParseData u t = (?m, length ?es)"
    by (simp add: handleParseData_def acceptedEntries_def fold_parseLine)
  have d: "distinct (map fst ?m)"
    by (rule distinct_fold_update) simp
  have k: "set (map fst ?m) = set (map fst ?es)"
    using keys_fold_update[of ?es "[]"] by simp
  have "length ?m = length (map fst ?m)" by simp
  also have "\<dots> = card (set (map fst ?m))" using d by (simp only: distinct_card)
  also have "\<dots> = card (set (map fst ?es))" by (simp only: k)
  finally have l: "length ?m = card (set (map fst ?es))" .
  have le: "card (set (map fst ?es)) \<le> length (map fst ?es)" by (rule card_length)
  have lt: "card (set (map fst ?es)) < length (map fst ?es)" if "\<not> distinct (map fst ?es)"
    using that le card_distinct[of "map fst ?es"] by (cases "card (set (map fst ?es)) = length (map fst ?es)") auto
  show ?thesis
    using r d l le lt map_of_fold_update[of ?es "[]"] by auto
qed

text \<open>C10 on two lines whose names differ in case only: one entry, the second line's, and
  a count of two.\<close>

theorem loader_count_witness:
  "\<not> distinct (map fst (acceptedEntries (\<lambda>s. s)
        (lit ''a'' @ [9] @ lit ''P'' @ [9, 9, 9, 9, 10] @ lit ''A'' @ [9] @ lit ''Q'' @ [9, 9, 9, 9]))) \<and>
   length (fst (handleParseData (\<lambda>s. s)
        (lit ''a'' @ [9] @ lit ''P'' @ [9, 9, 9, 9, 10] @ lit ''A'' @ [9] @ lit ''Q'' @ [9, 9, 9, 9]))) <
   snd (handleParseData (\<lambda>s. s)
        (lit ''a'' @ [9] @ lit ''P'' @ [9, 9, 9, 9, 10] @ lit ''A'' @ [9] @ lit ''Q'' @ [9, 9, 9, 9])) \<and>
   map_of (fst (handleParseData (\<lambda>s. s)
        (lit ''a'' @ [9] @ lit ''P'' @ [9, 9, 9, 9, 10] @ lit ''A'' @ [9] @ lit ''Q'' @ [9, 9, 9, 9])))
      (lit ''a'') =
     Some \<lparr>provider = lit ''Q'', portalLiveDate = None, imsGameCode = None\<rparr>"
proof -
  define t where "t = lit ''a'' @ [9] @ lit ''P'' @ [9, 9, 9, 9, 10] @ lit ''A'' @ [9] @
        lit ''Q'' @ [9, 9, 9, 9]"
  have e: "acceptedEntries (\<lambda>s. s) t =
      [(lit ''a'', \<lparr>provider = lit ''P'', portalLiveDate = None, imsGameCode = None\<rparr>),
       (lit ''a'', \<lparr>provider = lit ''Q'', portalLiveDate = None, imsGameCode = None\<rparr>)]"
    unfolding t_def
    by (simp add: acceptedEntries_def dataLinesOf_def acceptedEntry_def
        normalize_eval orNull_def)
  have "\<not> distinct (map fst (acceptedEntries (\<lambda>s. s) t)) \<and>
        length (fst (handleParseData (\<lambda>s. s) t)) < snd (handleParseData (\<lambda>s. s) t) \<and>
        map_of (fst (handleParseData (\<lambda>s. s) t)) (lit ''a'') =
          Some \<lparr>provider = lit ''Q'', portalLiveDate = None, imsGameCode = None\<rparr>"
    using loader_count[of "\<lambda>s. s" t] by (simp add: e)
  then show ?thesis unfolding t_def .
qed


section \<open>Authoritative code precedence\<close>

lemma firstOf_append: "firstOf (xs @ ys) = orElse (firstOf xs) (firstOf ys)"
  by (cases xs) (simp_all add: orElse_def)

lemma orElse_assoc: "orElse (orElse a b) c = orElse a (orElse b c)"
  by (simp add: orElse_def split: option.splits)

lemma providerPass_fold:
  "distinct (map fst gpm) \<Longrightarrow>
   map_of (fold (\<lambda>(gameNameKey, providerInfo) m.
             case imsGameCode providerInfo of
               None \<Rightarrow> m
             | Some code \<Rightarrow> if code \<noteq> [] then AList.update gameNameKey code m else m) gpm m0) k =
   orElse (tableCode gpm k) (map_of m0 k)"
proof (induction gpm arbitrary: m0)
  case Nil
  then show ?case by (simp add: tableCode_def orElse_def)
next
  case (Cons e gpm)
  obtain k' info where e: "e = (k', info)" by (cases e)
  from Cons.prems e have d: "distinct (map fst gpm)" and n: "map_of gpm k' = None"
    by (auto simp: map_of_eq_None_iff)
  show ?case
    using Cons.IH[OF d] e n
    by (auto simp: tableCode_def orElse_def truthy_def AList.update_conv' split: option.splits)
qed

lemma map_of_providerPass:
  "distinct (map fst gpm) \<Longrightarrow> map_of (providerPass gpm) k = tableCode gpm k"
  unfolding providerPass_def by (simp add: providerPass_fold orElse_def split: option.splits)

lemma map_of_instancePass:
  "map_of (instancePass u i m) k =
     (if k = [] then map_of m k
      else orElse (map_of m k) (firstOf (instanceCodes u k [i])))"
  by (auto simp: instancePass_def instanceCodes_def List.map_filter_simps truthy_def orElse_def
      AList.update_conv' Let_def split: option.splits)

lemma instanceCodes_Cons:
  "instanceCodes u k (i # is) = instanceCodes u k [i] @ instanceCodes u k is"
  by (simp add: instanceCodes_def List.map_filter_simps split: option.splits)

lemma map_of_fold_instancePass:
  "map_of (fold (instancePass u) is m) k =
     (if k = [] then map_of m k
      else orElse (map_of m k) (firstOf (instanceCodes u k is)))"
proof (induction "is" arbitrary: m)
  case Nil
  then show ?case by (simp add: instanceCodes_def List.map_filter_simps orElse_def split: option.splits)
next
  case (Cons i "is")
  show ?case
    using Cons.IH[of "instancePass u i m"]
    by (simp add: map_of_instancePass instanceCodes_Cons[of u k i "is"] firstOf_append orElse_assoc)
qed

lemma map_of_fold_filePass:
  "map_of (fold (filePass u) data m) k =
     (if k = [] then map_of m k
      else orElse (map_of m k) (firstOf (extractedCodes u k data)))"
proof (induction data arbitrary: m)
  case Nil
  then show ?case by (simp add: extractedCodes_def orElse_def split: option.splits)
next
  case (Cons f data)
  have c: "extractedCodes u k (f # data) =
      (if status f = completed then instanceCodes u k (extractedInstances f) else []) @
      extractedCodes u k data"
    by (simp add: extractedCodes_def)
  show ?case
    using Cons.IH[of "filePass u f m"]
    by (simp add: c filePass_def map_of_fold_instancePass firstOf_append orElse_assoc)
       (simp add: orElse_def)
qed

text \<open>
  C1, as amended. With a provider table of distinct keys: a key whose table entry has a
  non-empty \<open>imsGameCode\<close> resolves to that code whatever was extracted; a non-empty key
  with no such table code resolves to the first non-empty \<open>gameCode\<close> extracted for it
  from the completed files, in file-then-instance order, and to nothing if there is none.
\<close>

theorem code_precedence:
  assumes "distinct (map fst gpm)"
  shows "(map_of gpm k = Some info \<and> imsGameCode info = Some c \<and> c \<noteq> [] \<longrightarrow>
            map_of (authoritativeImsCodeMap u gpm data) k = Some c) \<and>
         (k \<noteq> [] \<and> tableCode gpm k = None \<longrightarrow>
            map_of (authoritativeImsCodeMap u gpm data) k = firstOf (extractedCodes u k data))"
  using assms
  by (auto simp: authoritativeImsCodeMap_def map_of_fold_filePass map_of_providerPass
      tableCode_def truthy_def orElse_def)

text \<open>C1 on the two examples of the specification: table code \<open>A\<close> against extracted
  \<open>B\<close>, and extracted \<open>B\<close> then \<open>C\<close> with no table entry.\<close>

theorem code_precedence_witness:
  "map_of (authoritativeImsCodeMap (\<lambda>s. s)
      [(lit ''k'', \<lparr>provider = lit ''P'', portalLiveDate = None, imsGameCode = Some (lit ''A'')\<rparr>)]
      [\<lparr>fileId = lit ''f1'', pdfFileName = lit ''f1.pdf'', status = completed, errorMessage = None,
        reportNumber = None, certificationDate = None, supplierRegistrationNumber = None,
        extractedInstances = [\<lparr>gameName = Some (lit ''K''), gameCode = Some (lit ''B''), files = []\<rparr>]\<rparr>])
     (lit ''k'') = Some (lit ''A'') \<and>
   map_of (authoritativeImsCodeMap (\<lambda>s. s) []
      [\<lparr>fileId = lit ''f1'', pdfFileName = lit ''f1.pdf'', status = completed, errorMessage = None,
        reportNumber = None, certificationDate = None, supplierRegistrationNumber = None,
        extractedInstances = [\<lparr>gameName = Some (lit ''K''), gameCode = Some (lit ''B''), files = []\<rparr>]\<rparr>,
       \<lparr>fileId = lit ''f2'', pdfFileName = lit ''f2.pdf'', status = completed, errorMessage = None,
        reportNumber = None, certificationDate = None, supplierRegistrationNumber = None,
        extractedInstances = [\<lparr>gameName = Some (lit ''k''), gameCode = Some (lit ''C''), files = []\<rparr>]\<rparr>])
     (lit ''k'') = Some (lit ''B'')"
proof -
  define gpm :: GameProviderMap where
    "gpm = [(lit ''k'', \<lparr>provider = lit ''P'', portalLiveDate = None, imsGameCode = Some (lit ''A'')\<rparr>)]"
  define f1 where
    "f1 = \<lparr>fileId = lit ''f1'', pdfFileName = lit ''f1.pdf'', status = completed, errorMessage = None,
        reportNumber = None, certificationDate = None, supplierRegistrationNumber = None,
        extractedInstances = [\<lparr>gameName = Some (lit ''K''), gameCode = Some (lit ''B''), files = []\<rparr>]\<rparr>"
  define f2 where
    "f2 = \<lparr>fileId = lit ''f2'', pdfFileName = lit ''f2.pdf'', status = completed, errorMessage = None,
        reportNumber = None, certificationDate = None, supplierRegistrationNumber = None,
        extractedInstances = [\<lparr>gameName = Some (lit ''k''), gameCode = Some (lit ''C''), files = []\<rparr>]\<rparr>"
  have n: "normalizeGameName (\<lambda>s. s) (Some (lit ''K'')) = lit ''k''" "normalizeGameName (\<lambda>s. s) (Some (lit ''k'')) = lit ''k''"
    by (simp_all add: normalize_eval)
  have a: "map_of (authoritativeImsCodeMap (\<lambda>s. s) gpm [f1]) (lit ''k'') = Some (lit ''A'')"
    using code_precedence[where u = "\<lambda>s. s" and data = "[f1]", of gpm "lit ''k''"
        "\<lparr>provider = lit ''P'', portalLiveDate = None, imsGameCode = Some (lit ''A'')\<rparr>" "lit ''A''"]
    by (simp add: gpm_def lit_def)
  have c: "extractedCodes (\<lambda>s. s) (lit ''k'') [f1, f2] = [lit ''B'', lit ''C'']"
    by (simp add: extractedCodes_def instanceCodes_def f1_def f2_def n truthy_def)
       (simp add: lit_def)
  have b: "map_of (authoritativeImsCodeMap (\<lambda>s. s) [] [f1, f2]) (lit ''k'') = Some (lit ''B'')"
    using code_precedence[where u = "\<lambda>s. s" and data = "[f1, f2]", of "[]" "lit ''k''"]
    by (simp add: tableCode_def c) (simp add: lit_def)
  show ?thesis using a b unfolding gpm_def f1_def f2_def by simp
qed

text \<open>
  C1 as stated fails at the empty key: an instance without a game name has the key
  \<open>normalizeGameName u None\<close>, which no table has; its code \<open>B\<close> is not stored.
\<close>

theorem code_precedence_counterexample:
  "map_of (authoritativeImsCodeMap (\<lambda>s. s) []
      [\<lparr>fileId = lit ''f1'', pdfFileName = lit ''f1.pdf'', status = completed, errorMessage = None,
        reportNumber = None, certificationDate = None, supplierRegistrationNumber = None,
        extractedInstances = [\<lparr>gameName = None, gameCode = Some (lit ''B''), files = []\<rparr>]\<rparr>])
     (normalizeGameName (\<lambda>s. s) None) = None"
  by (simp add: authoritativeImsCodeMap_def providerPass_def filePass_def instancePass_def
      normalizeGameName_def)


section \<open>Provider-partitioned export\<close>

lemma distinct_singleton_set: "distinct xs \<Longrightarrow> set xs = {a} \<Longrightarrow> xs = [a]"
proof (cases xs)
  case Nil
  assume "set xs = {a}"
  with Nil show ?thesis by simp
next
  case (Cons x ys)
  assume d: "distinct xs" and s: "set xs = {a}"
  from s Cons have x: "x = a" by auto
  from d s Cons x have "ys = []" by (cases ys) auto
  with Cons x show ?thesis by simp
qed

lemma set_newFolders: "set (newFolders seen ds) = set ds - set seen"
  by (induction ds arbitrary: seen) auto

lemma distinct_newFolders: "distinct (newFolders seen ds)"
  by (induction ds arbitrary: seen) (auto simp: set_newFolders)

lemma instanceLoop_newFolders:
  "instanceLoop u gpm f insts st =
     (fst st @ map (\<lambda>d. (d, f)) (newFolders (snd st) (map (folderNameOf u gpm) insts)),
      snd st @ newFolders (snd st) (map (folderNameOf u gpm) insts))"
  by (induction insts arbitrary: st) (simp_all add: Let_def)

lemma exportFile_absent:
  "ofm (fileId pf) = None \<Longrightarrow> exportFile u gpm ofm pf st = st"
  by (simp add: exportFile_def)

lemma exportFile_present:
  assumes "ofm (fileId pf) = Some f"
  shows "exportFile u gpm ofm pf st =
     (fst st @ map (\<lambda>d. (d, f))
        (if extractedInstances pf = [] then [lit ''Uncategorized'']
         else newFolders [] (map (folderNameOf u gpm) (extractedInstances pf))),
      snd st + 1)"
proof (cases "extractedInstances pf")
  case Nil
  then show ?thesis using assms by (simp add: exportFile_def)
next
  case (Cons i insts)
  then have "newFolders [] (map (folderNameOf u gpm) (extractedInstances pf)) \<noteq> []" by simp
  then show ?thesis using assms Cons
    by (simp add: exportFile_def instanceLoop_newFolders Let_def)
qed

lemma exportLoop_count_fold:
  "snd (fold (exportFile u gpm ofm) pfs st) =
     snd st + length (filter (\<lambda>pf. ofm (fileId pf) \<noteq> None) pfs)"
proof (induction pfs arbitrary: st)
  case Nil
  then show ?case by simp
next
  case (Cons pf pfs)
  show ?case
  proof (cases "ofm (fileId pf)")
    case None
    then show ?thesis using Cons.IH[of st] by (simp add: exportFile_absent)
  next
    case (Some f)
    then show ?thesis using Cons.IH[of "exportFile u gpm ofm pf st"]
      by (simp add: exportFile_present)
  qed
qed

text \<open>
  C3, as amended. A completed file whose bytes are in the file store is placed once into
  each distinct folder that one of its instances resolves to (once into
  \<open>Uncategorized\<close> if it has no instance), and counted once; if every instance resolves to
  \<open>Uncategorized\<close>, it is placed there exactly once and nowhere else.
\<close>

theorem export_once_per_folder:
  assumes "ofm (fileId pf) = Some f"
  shows "\<exists>folders.
           exportFile u gpm ofm pf (z, n) = (z @ map (\<lambda>d. (d, f)) folders, n + 1) \<and>
           distinct folders \<and>
           set folders =
             (if extractedInstances pf = [] then {lit ''Uncategorized''}
              else folderNameOf u gpm ` set (extractedInstances pf)) \<and>
           ((\<forall>i \<in> set (extractedInstances pf). folderNameOf u gpm i = lit ''Uncategorized'') \<longrightarrow>
              folders = [lit ''Uncategorized''])"
proof -
  let ?fs = "if extractedInstances pf = [] then [lit ''Uncategorized'']
         else newFolders [] (map (folderNameOf u gpm) (extractedInstances pf))"
  have e: "exportFile u gpm ofm pf (z, n) = (z @ map (\<lambda>d. (d, f)) ?fs, n + 1)"
    using assms exportFile_present[of ofm pf f u gpm "(z, n)"] by simp
  have d: "distinct ?fs" by (simp add: distinct_newFolders)
  have s: "set ?fs = (if extractedInstances pf = [] then {lit ''Uncategorized''}
              else folderNameOf u gpm ` set (extractedInstances pf))"
    by (simp add: set_newFolders)
  have u: "?fs = [lit ''Uncategorized'']"
    if a: "\<forall>i \<in> set (extractedInstances pf). folderNameOf u gpm i = lit ''Uncategorized''"
  proof (cases "extractedInstances pf")
    case Nil
    then show ?thesis by simp
  next
    case (Cons i insts)
    with a s have "set ?fs = {lit ''Uncategorized''}" by auto
    with d show ?thesis by (rule distinct_singleton_set)
  qed
  show ?thesis using e d s u by blast
qed

text \<open>C3 on a file whose only instance has an unknown name and no code: it is placed into
  \<open>Uncategorized\<close> once.\<close>

theorem export_once_per_folder_witness:
  "exportFile (\<lambda>s. s)
     [(lit ''a'', \<lparr>provider = lit ''Acme'', portalLiveDate = None, imsGameCode = None\<rparr>)]
     [lit ''id1'' \<mapsto> \<lparr>fileName = lit ''c.pdf'', fileType = lit ''application/pdf'', fileBytes = [37]\<rparr>]
     \<lparr>fileId = lit ''id1'', pdfFileName = lit ''c.pdf'', status = completed, errorMessage = None,
      reportNumber = None, certificationDate = None, supplierRegistrationNumber = None,
      extractedInstances = [\<lparr>gameName = Some (lit ''z''), gameCode = None, files = []\<rparr>]\<rparr>
     ([], 0) =
   ([(lit ''Uncategorized'',
      \<lparr>fileName = lit ''c.pdf'', fileType = lit ''application/pdf'', fileBytes = [37]\<rparr>)], 1)"
proof -
  define gpm :: GameProviderMap where
    "gpm = [(lit ''a'', \<lparr>provider = lit ''Acme'', portalLiveDate = None, imsGameCode = None\<rparr>)]"
  define f where
    "f = \<lparr>fileName = lit ''c.pdf'', fileType = lit ''application/pdf'', fileBytes = [37]\<rparr>"
  define pf where
    "pf = \<lparr>fileId = lit ''id1'', pdfFileName = lit ''c.pdf'', status = completed, errorMessage = None,
      reportNumber = None, certificationDate = None, supplierRegistrationNumber = None,
      extractedInstances = [\<lparr>gameName = Some (lit ''z''), gameCode = None, files = []\<rparr>]\<rparr>"
  have p: "[lit ''id1'' \<mapsto> f] (fileId pf) = Some f"
    by (simp add: pf_def)
  have u: "\<forall>i \<in> set (extractedInstances pf). folderNameOf (\<lambda>s. s) gpm i = lit ''Uncategorized''"
    by (simp add: pf_def gpm_def folderNameOf_def normalize_eval)
  from export_once_per_folder[of "[lit ''id1'' \<mapsto> f]" pf f "\<lambda>s. s" gpm "[]" 0] p u
  have "exportFile (\<lambda>s. s) gpm [lit ''id1'' \<mapsto> f] pf ([], 0) = ([(lit ''Uncategorized'', f)], 1)"
    by auto
  then show ?thesis unfolding gpm_def f_def pf_def .
qed

text \<open>
  C3 as stated fails on a file with two instances of different providers: the file is
  placed into both folders.
\<close>

theorem export_once_per_folder_counterexample:
  "exportFile (\<lambda>s. s)
     [(lit ''a'', \<lparr>provider = lit ''Acme'', portalLiveDate = None, imsGameCode = None\<rparr>),
      (lit ''b'', \<lparr>provider = lit ''Beta'', portalLiveDate = None, imsGameCode = None\<rparr>)]
     [lit ''id1'' \<mapsto> \<lparr>fileName = lit ''c.pdf'', fileType = lit ''application/pdf'', fileBytes = [37]\<rparr>]
     \<lparr>fileId = lit ''id1'', pdfFileName = lit ''c.pdf'', status = completed, errorMessage = None,
      reportNumber = None, certificationDate = None, supplierRegistrationNumber = None,
      extractedInstances = [\<lparr>gameName = Some (lit ''a''), gameCode = None, files = []\<rparr>,
                            \<lparr>gameName = Some (lit ''b''), gameCode = None, files = []\<rparr>]\<rparr>
     ([], 0) =
   ([(lit ''Acme'', \<lparr>fileName = lit ''c.pdf'', fileType = lit ''application/pdf'', fileBytes = [37]\<rparr>),
     (lit ''Beta'', \<lparr>fileName = lit ''c.pdf'', fileType = lit ''application/pdf'', fileBytes = [37]\<rparr>)],
    1)"
  by (simp add: exportFile_def folderNameOf_def normalize_eval Let_def)

lemma exportFile_placements:
  "fst (exportFile u gpm ofm pf st) = fst st @ placements u gpm ofm pf"
proof (cases "ofm (fileId pf)")
  case None
  then show ?thesis by (simp add: exportFile_absent placements_def)
next
  case (Some f)
  then show ?thesis using exportFile_present[of ofm pf f u gpm st] by (simp add: placements_def)
qed

lemma exportLoop_archive_fold:
  "fst (fold (exportFile u gpm ofm) pfs st) = fst st @ concat (map (placements u gpm ofm) pfs)"
proof (induction pfs arbitrary: st)
  case Nil
  then show ?case by simp
next
  case (Cons pf pfs)
  show ?case using Cons.IH[of "exportFile u gpm ofm pf st"] by (simp add: exportFile_placements)
qed

lemma placements_nonempty:
  "ofm (fileId pf) = Some f \<Longrightarrow> \<exists>d. (d, f) \<in> set (placements u gpm ofm pf)"
proof -
  assume p: "ofm (fileId pf) = Some f"
  define fs where "fs = (if extractedInstances pf = [] then [lit ''Uncategorized'']
         else newFolders [] (map (folderNameOf u gpm) (extractedInstances pf)))"
  have e: "placements u gpm ofm pf = map (\<lambda>d. (d, f)) fs"
    using p by (simp add: placements_def fs_def)
  have "fs \<noteq> []" unfolding fs_def by (cases "extractedInstances pf") simp_all
  then obtain d ds where "fs = d # ds" by (cases fs) auto
  then have "(d, f) \<in> set (map (\<lambda>d. (d, f)) fs)" by simp
  then show ?thesis unfolding e by blast
qed

lemma placements_file:
  "(d, f) \<in> set (placements u gpm ofm pf) \<Longrightarrow> ofm (fileId pf) = Some f"
  by (auto simp: placements_def split: option.splits)

lemma archiveOf_fold:
  "map_of (fold (\<lambda>(folderName, file). AList.update (pathOf folderName file) file) calls m) =
   map_of m ++ map_of (rev (map (\<lambda>(d, f). (pathOf d f, f)) calls))"
proof (induction calls arbitrary: m)
  case Nil
  then show ?case by simp
next
  case (Cons c calls)
  obtain d f where c: "c = (d, f)" by (cases c)
  show ?case using Cons.IH[of "AList.update (pathOf d f) f m"] c
    by (auto simp: AList.update_conv' map_add_def fun_eq_iff split: option.splits)
qed

lemma archiveOf_last_call:
  "map_of (archiveOf calls) = map_of (rev (map (\<lambda>(d, f). (pathOf d f, f)) calls))"
  by (simp add: archiveOf_def archiveOf_fold)

lemma archiveOf_has_path:
  "(d, f) \<in> set calls \<Longrightarrow> \<exists>g. map_of (archiveOf calls) (pathOf d f) = Some g"
proof -
  assume "(d, f) \<in> set calls"
  then have "(\<lambda>(d, f). (pathOf d f, f)) (d, f) \<in> (\<lambda>(d, f). (pathOf d f, f)) ` set calls"
    by (rule imageI)
  then have "(pathOf d f, f) \<in> set (rev (map (\<lambda>(d, f). (pathOf d f, f)) calls))"
    by simp
  then show ?thesis
    unfolding archiveOf_last_call by (rule weak_map_of_SomeI)
qed

text \<open>
  C9. A completed file whose bytes are not in the file store leaves the archive and the
  tally as they are; one whose bytes are there is placed into at least one folder and
  counted once. So the archive of an export is made of the placements of the completed
  files whose bytes are there, each of them has a call and an entry at its path, no other
  file has one, and the tally, which is the count that a successful export reports with
  that archive, is the number of those files.
\<close>

theorem export_count:
  "(ofm (fileId pf) = None \<longrightarrow> exportFile u gpm ofm pf st = st) \<and>
   (ofm (fileId pf) = Some f \<longrightarrow>
      (\<exists>calls. calls \<noteq> [] \<and> snd ` set calls = {f} \<and>
               exportFile u gpm ofm pf st = (fst st @ calls, snd st + 1))) \<and>
   snd (exportLoop u gpm ofm pfs) =
     length (filter (\<lambda>pf. status pf = completed \<and> ofm (fileId pf) \<noteq> None) pfs) \<and>
   fst (exportLoop u gpm ofm pfs) =
     concat (map (placements u gpm ofm) (filter (\<lambda>pf. status pf = completed) pfs)) \<and>
   (pf \<in> set pfs \<and> status pf = completed \<and> ofm (fileId pf) = Some f \<longrightarrow>
      (\<exists>d. (d, f) \<in> set (fst (exportLoop u gpm ofm pfs)) \<and>
           (\<exists>g. map_of (archiveOf (fst (exportLoop u gpm ofm pfs))) (pathOf d f) = Some g))) \<and>
   ((d, f) \<in> set (fst (exportLoop u gpm ofm pfs)) \<longrightarrow>
      (\<exists>pf \<in> set pfs. status pf = completed \<and> ofm (fileId pf) = Some f)) \<and>
   (handleExportZip u generateAsync app = (app', Some blob) \<longrightarrow>
      generateAsync (fst (exportLoop u (gameProviderMap app) (originalFilesMap app)
                            (processedFiles app))) = Inr blob \<and>
      providerDataStatus app' =
        lit ''Successfully exported '' @
        showNat (length (filter (\<lambda>pf. status pf = completed \<and>
                                      originalFilesMap app (fileId pf) \<noteq> None)
                          (processedFiles app))) @
        lit '' file(s) in ZIP.'')"
proof -
  have a: "exportFile u gpm ofm pf st = st" if "ofm (fileId pf) = None"
    using that by (rule exportFile_absent)
  have b: "\<exists>calls. calls \<noteq> [] \<and> snd ` set calls = {f} \<and>
               exportFile u gpm ofm pf st = (fst st @ calls, snd st + 1)"
    if p: "ofm (fileId pf) = Some f"
  proof -
    define fs where "fs = (if extractedInstances pf = [] then [lit ''Uncategorized'']
         else newFolders [] (map (folderNameOf u gpm) (extractedInstances pf)))"
    have ne: "fs \<noteq> []" unfolding fs_def by (cases "extractedInstances pf") simp_all
    then obtain d ds where "fs = d # ds" by (cases fs) auto
    then have "snd ` set (map (\<lambda>d. (d, f)) fs) = {f}" by (auto simp: image_iff)
    moreover have "map (\<lambda>d. (d, f)) fs \<noteq> []" using ne by simp
    moreover have "exportFile u gpm ofm pf st = (fst st @ map (\<lambda>d. (d, f)) fs, snd st + 1)"
      using p exportFile_present[of ofm pf f u gpm st] unfolding fs_def by simp
    ultimately show ?thesis by blast
  qed
  have cnt: "snd (exportLoop u gpm' ofm' pfs') =
     length (filter (\<lambda>pf. status pf = completed \<and> ofm' (fileId pf) \<noteq> None) pfs')"
    for gpm' ofm' pfs'
    by (simp add: exportLoop_def exportLoop_count_fold filter_filter conj_commute)
  have z: "fst (exportLoop u gpm ofm pfs) =
     concat (map (placements u gpm ofm) (filter (\<lambda>pf. status pf = completed) pfs))"
    by (simp add: exportLoop_def exportLoop_archive_fold)
  have e: "\<exists>d. (d, f) \<in> set (fst (exportLoop u gpm ofm pfs)) \<and>
           (\<exists>g. map_of (archiveOf (fst (exportLoop u gpm ofm pfs))) (pathOf d f) = Some g)"
    if m: "pf \<in> set pfs" and c: "status pf = completed" and p: "ofm (fileId pf) = Some f"
  proof -
    obtain d where "(d, f) \<in> set (placements u gpm ofm pf)"
      using placements_nonempty[of ofm pf f u gpm] p by blast
    with m c have "(d, f) \<in> set (fst (exportLoop u gpm ofm pfs))"
      unfolding z by auto
    then show ?thesis using archiveOf_has_path by blast
  qed
  have g: "\<exists>pf \<in> set pfs. status pf = completed \<and> ofm (fileId pf) = Some f"
    if "(d, f) \<in> set (fst (exportLoop u gpm ofm pfs))"
    using that unfolding z by (auto dest: placements_file)
  have h: "generateAsync (fst (exportLoop u (gameProviderMap app) (originalFilesMap app)
                            (processedFiles app))) = Inr blob \<and>
      providerDataStatus app' =
        lit ''Successfully exported '' @
        showNat (length (filter (\<lambda>pf. status pf = completed \<and>
                                      originalFilesMap app (fileId pf) \<noteq> None)
                          (processedFiles app))) @
        lit '' file(s) in ZIP.''"
    if "handleExportZip u generateAsync app = (app', Some blob)"
    using that
    by (auto simp: handleExportZip_def Let_def cnt split: if_splits sum.splits)
  from a b have ab: "(ofm (fileId pf) = None \<longrightarrow> exportFile u gpm ofm pf st = st) \<and>
   (ofm (fileId pf) = Some f \<longrightarrow>
      (\<exists>calls. calls \<noteq> [] \<and> snd ` set calls = {f} \<and>
               exportFile u gpm ofm pf st = (fst st @ calls, snd st + 1)))" by blast
  from e g have eg: "(pf \<in> set pfs \<and> status pf = completed \<and> ofm (fileId pf) = Some f \<longrightarrow>
      (\<exists>d. (d, f) \<in> set (fst (exportLoop u gpm ofm pfs)) \<and>
           (\<exists>g. map_of (archiveOf (fst (exportLoop u gpm ofm pfs))) (pathOf d f) = Some g))) \<and>
   ((d, f) \<in> set (fst (exportLoop u gpm ofm pfs)) \<longrightarrow>
      (\<exists>pf \<in> set pfs. status pf = completed \<and> ofm (fileId pf) = Some f))" by blast
  show ?thesis
    apply (intro conjI)
    using ab apply blast
    using ab apply blast
    using cnt[of gpm ofm pfs] apply blast
    using z apply blast
    using eg apply blast
    using eg apply blast
    using h apply blast
    done
qed

text \<open>C9 on two completed files, the bytes of the second missing: the archive holds the
  first, and one file is reported.\<close>

theorem export_count_witness:
  "exportFile (\<lambda>s. s) []
     [lit ''id1'' \<mapsto> \<lparr>fileName = lit ''c.pdf'', fileType = lit ''application/pdf'', fileBytes = [37]\<rparr>]
     \<lparr>fileId = lit ''id2'', pdfFileName = lit ''d.pdf'', status = completed, errorMessage = None,
      reportNumber = None, certificationDate = None, supplierRegistrationNumber = None,
      extractedInstances = []\<rparr> ([], 0) = ([], 0) \<and>
   handleExportZip (\<lambda>s. s) Inr
     \<lparr>apiKey = lit ''key'',
      processedFiles =
        [\<lparr>fileId = lit ''id1'', pdfFileName = lit ''c.pdf'', status = completed, errorMessage = None,
          reportNumber = None, certificationDate = None, supplierRegistrationNumber = None,
          extractedInstances = []\<rparr>,
         \<lparr>fileId = lit ''id2'', pdfFileName = lit ''d.pdf'', status = completed, errorMessage = None,
          reportNumber = None, certificationDate = None, supplierRegistrationNumber = None,
          extractedInstances = []\<rparr>],
      originalFilesMap =
        [lit ''id1'' \<mapsto> \<lparr>fileName = lit ''c.pdf'', fileType = lit ''application/pdf'', fileBytes = [37]\<rparr>],
      isBatchProcessing = False, isZipping = False,
      gameProviderMap =
        [(lit ''a'', \<lparr>provider = lit ''Acme'', portalLiveDate = None, imsGameCode = None\<rparr>)],
      providerDataStatus = []\<rparr> =
   (\<lparr>apiKey = lit ''key'',
      processedFiles =
        [\<lparr>fileId = lit ''id1'', pdfFileName = lit ''c.pdf'', status = completed, errorMessage = None,
          reportNumber = None, certificationDate = None, supplierRegistrationNumber = None,
          extractedInstances = []\<rparr>,
         \<lparr>fileId = lit ''id2'', pdfFileName = lit ''d.pdf'', status = completed, errorMessage = None,
          reportNumber = None, certificationDate = None, supplierRegistrationNumber = None,
          extractedInstances = []\<rparr>],
      originalFilesMap =
        [lit ''id1'' \<mapsto> \<lparr>fileName = lit ''c.pdf'', fileType = lit ''application/pdf'', fileBytes = [37]\<rparr>],
      isBatchProcessing = False, isZipping = False,
      gameProviderMap =
        [(lit ''a'', \<lparr>provider = lit ''Acme'', portalLiveDate = None, imsGameCode = None\<rparr>)],
      providerDataStatus = lit ''Successfully exported 1 file(s) in ZIP.''\<rparr>,
    Some [(lit ''Uncategorized'',
           \<lparr>fileName = lit ''c.pdf'', fileType = lit ''application/pdf'', fileBytes = [37]\<rparr>)]) \<and>
   map_of (archiveOf
      [(lit ''Uncategorized'',
        \<lparr>fileName = lit ''c.pdf'', fileType = lit ''application/pdf'', fileBytes = [37]\<rparr>)])
     (lit ''Uncategorized/c.pdf'') =
   Some \<lparr>fileName = lit ''c.pdf'', fileType = lit ''application/pdf'', fileBytes = [37]\<rparr>"
proof -
  define f where
    "f = \<lparr>fileName = lit ''c.pdf'', fileType = lit ''application/pdf'', fileBytes = [37]\<rparr>"
  define pf1 where
    "pf1 = \<lparr>fileId = lit ''id1'', pdfFileName = lit ''c.pdf'', status = completed, errorMessage = None,
      reportNumber = None, certificationDate = None, supplierRegistrationNumber = None,
      extractedInstances = []\<rparr>"
  define pf2 where
    "pf2 = \<lparr>fileId = lit ''id2'', pdfFileName = lit ''d.pdf'', status = completed, errorMessage = None,
      reportNumber = None, certificationDate = None, supplierRegistrationNumber = None,
      extractedInstances = []\<rparr>"
  define gpm :: GameProviderMap where
    "gpm = [(lit ''a'', \<lparr>provider = lit ''Acme'', portalLiveDate = None, imsGameCode = None\<rparr>)]"
  define app where
    "app = \<lparr>apiKey = lit ''key'', processedFiles = [pf1, pf2],
      originalFilesMap = [lit ''id1'' \<mapsto> f],
      isBatchProcessing = False, isZipping = False, gameProviderMap = gpm,
      providerDataStatus = []\<rparr>"
  define ofm where "ofm = [lit ''id1'' \<mapsto> f]"
  have p1: "ofm (fileId pf1) = Some f" by (simp add: pf1_def ofm_def)
  have p2: "ofm (fileId pf2) = None" by (simp add: pf2_def ofm_def lit_def)
  have s1: "status pf1 = completed" "status pf2 = completed" by (simp_all add: pf1_def pf2_def)
  have i1: "pf1 \<in> set [pf1, pf2]" by simp
  have ga: "gameProviderMap app = gpm" "originalFilesMap app = ofm" "processedFiles app = [pf1, pf2]"
    by (simp_all add: app_def ofm_def)
  have pl: "concat (map (placements (\<lambda>s. s) gpm ofm) (filter (\<lambda>pf. status pf = completed) [pf1, pf2])) =
      [(lit ''Uncategorized'', f)]"
    using p1 p2 s1 by (simp add: placements_def) (simp add: pf1_def)
  have cn: "length (filter (\<lambda>pf. status pf = completed \<and> ofm (fileId pf) \<noteq> None) [pf1, pf2]) = 1"
    using p1 p2 s1 by simp
  have a: "exportFile (\<lambda>s. s) [] ofm pf2 ([], 0) = ([], 0)"
    using export_count[where u = "\<lambda>s. s" and gpm = "[]" and ofm = ofm and pf = pf2
        and st = "([], 0)"] p2 by blast
  note ec = export_count[where u = "\<lambda>s. s" and gpm = gpm and ofm = ofm and pfs = "[pf1, pf2]"
      and generateAsync = Inr and app = app and f = f and st = "([], 0)" and pf = pf1
      and d = "lit ''Uncategorized''"
      and app' = "app\<lparr>providerDataStatus :=
                        lit ''Successfully exported '' @ showNat 1 @ lit '' file(s) in ZIP.'',
                      isZipping := False\<rparr>"
      and blob = "[(lit ''Uncategorized'', f)]"]
  from ec have z: "fst (exportLoop (\<lambda>s. s) gpm ofm [pf1, pf2]) = [(lit ''Uncategorized'', f)]"
    unfolding pl by blast
  from ec have n: "snd (exportLoop (\<lambda>s. s) gpm ofm [pf1, pf2]) = 1"
    unfolding cn by blast
  have m: "(lit ''Uncategorized'', f) \<in> set (fst (exportLoop (\<lambda>s. s) gpm ofm [pf1, pf2]))"
    by (simp add: z)
  have h0: "handleExportZip (\<lambda>s. s) Inr app =
      (app\<lparr>providerDataStatus := lit ''Successfully exported '' @ showNat 1 @ lit '' file(s) in ZIP.'',
           isZipping := False\<rparr>, Some [(lit ''Uncategorized'', f)])"
    using z n s1
    by (simp add: handleExportZip_def Let_def ga) (simp add: app_def gpm_def)
  note c2 = ec[THEN conjunct2, THEN conjunct1]
  note c5 = ec[THEN conjunct2, THEN conjunct2, THEN conjunct2, THEN conjunct2, THEN conjunct1]
  note c6 = ec[THEN conjunct2, THEN conjunct2, THEN conjunct2, THEN conjunct2, THEN conjunct2,
      THEN conjunct1]
  note c7 = ec[THEN conjunct2, THEN conjunct2, THEN conjunct2, THEN conjunct2, THEN conjunct2,
      THEN conjunct2]
  note placed = mp[OF c2 p1]
  have hyp5: "pf1 \<in> set [pf1, pf2] \<and> status pf1 = completed \<and> ofm (fileId pf1) = Some f"
    by (intro conjI i1 s1(1) p1)
  note in_archive = mp[OF c5 hyp5]
  note from_store = mp[OF c6 m]
  note handed_over = conjunct1[OF mp[OF c7 h0]]
  have ar: "map_of (archiveOf [(lit ''Uncategorized'', f)]) (lit ''Uncategorized/c.pdf'') = Some f"
    by (simp add: archiveOf_def pathOf_def f_def lit_def)
  have h: "handleExportZip (\<lambda>s. s) Inr app =
      (app\<lparr>providerDataStatus := lit ''Successfully exported 1 file(s) in ZIP.''\<rparr>,
       Some [(lit ''Uncategorized'', f)])"
    unfolding h0 by (simp add: showNat.simps lit_def app_def)
  show ?thesis using a h ar unfolding f_def pf1_def pf2_def gpm_def app_def ofm_def by simp
qed

section \<open>Batch failure isolation\<close>


lemma fileId_finishFile [simp]: "fileId (finishFile sv ofm key f) = fileId f"
  by (simp add: finishFile_def split: sum.splits)










section \<open>Extraction validator\<close>

lemma getProp_not_null: "v \<noteq> JNull \<Longrightarrow> getProp v k = Inr (spec_lookup v k)"
  by (cases v) simp_all

lemma spec_lookup_null [simp]: "spec_lookup JNull k = None"
  by simp

lemma thenE_Inr [simp]: "thenE (Inr v) f = f v"
  by (simp add: thenE_def)

lemma thenE_Inl [simp]: "thenE (Inl e) f = Inl e"
  by (simp add: thenE_def)

lemma forEachE_ok:
  "forEachE c xs = Inr () \<longleftrightarrow> (\<forall>x \<in> set xs. c x = Inr ())"
proof (induction xs)
  case Nil
  then show ?case by simp
next
  case (Cons x xs)
  then show ?case by (cases "c x") simp_all
qed

lemma mapE_ok:
  "(\<forall>x \<in> set xs. f x = Inr (g x)) \<Longrightarrow> mapE f xs = Inr (map g xs)"
  by (induction xs) simp_all

lemma checkFile_ok: "checkFile f = Inr () \<longleftrightarrow> \<not> spec_fileViolation f"
proof (cases "f = JNull")
  case True
  then show ?thesis by (simp add: checkFile_def spec_fileViolation_def)
next
  case False
  then show ?thesis
    by (simp add: checkFile_def spec_fileViolation_def getProp_not_null fileEntryError_def
        split: option.splits json.splits)
qed

lemma checkInstance_ok: "checkInstance i = Inr () \<longleftrightarrow> \<not> spec_instanceViolation i"
proof (cases "i = JNull")
  case True
  then show ?thesis by (simp add: checkInstance_def spec_instanceViolation_def)
next
  case False
  then show ?thesis
    by (simp add: checkInstance_def spec_instanceViolation_def getProp_not_null instanceError_def
        forEachE_ok checkFile_ok list_ex_iff)
qed

lemma checkTopLevel_ok: "checkTopLevel p = Inr () \<longleftrightarrow> \<not> spec_schemaViolation p"
proof (cases "p = JNull")
  case True
  then show ?thesis by (simp add: checkTopLevel_def spec_schemaViolation_def)
next
  case False
  then show ?thesis
    by (simp add: checkTopLevel_def spec_schemaViolation_def getProp_not_null structureError_def
        forEachE_ok checkInstance_ok list_ex_iff)
qed

lemma structureFile_ok:
  "\<not> spec_fileViolation f \<Longrightarrow> structureFile f = Inr (spec_structuredFile f)"
proof -
  assume a: "\<not> spec_fileViolation f"
  then have n: "f \<noteq> JNull" by (auto simp: spec_fileViolation_def)
  from a obtain s where "spec_lookup f (lit ''name'') = Some (JStr s)"
    by (auto simp: spec_fileViolation_def elim: spec_isString.elims)
  then show ?thesis
    by (cases "spec_lookup f (lit ''md5'')"; cases "spec_lookup f (lit ''sha1'')")
       (simp_all add: structureFile_def spec_structuredFile_def getProp_not_null[OF n])
qed

lemma structureInstance_ok:
  "\<not> spec_instanceViolation i \<Longrightarrow> structureInstance i = Inr (spec_structuredInstance i)"
proof -
  assume a: "\<not> spec_instanceViolation i"
  then have n: "i \<noteq> JNull" by (auto simp: spec_instanceViolation_def)
  from a have "\<forall>f \<in> set (elements (spec_lookup i (lit ''files''))).
      structureFile f = Inr (spec_structuredFile f)"
    by (auto simp: spec_instanceViolation_def list_ex_iff intro: structureFile_ok)
  then have "mapE structureFile (elements (spec_lookup i (lit ''files''))) =
      Inr (map spec_structuredFile (elements (spec_lookup i (lit ''files''))))"
    by (rule mapE_ok)
  then show ?thesis
    by (simp add: structureInstance_def spec_structuredInstance_def getProp_not_null[OF n])
qed

lemma structureData_ok:
  "\<not> spec_schemaViolation p \<Longrightarrow> structureData p = Inr (spec_structured p)"
proof -
  assume a: "\<not> spec_schemaViolation p"
  then have n: "p \<noteq> JNull" by (auto simp: spec_schemaViolation_def)
  from a have "\<forall>i \<in> set (elements (spec_lookup p (lit ''gameInstances''))).
      structureInstance i = Inr (spec_structuredInstance i)"
    by (auto simp: spec_schemaViolation_def list_ex_iff intro: structureInstance_ok)
  then have "mapE structureInstance (elements (spec_lookup p (lit ''gameInstances''))) =
      Inr (map spec_structuredInstance (elements (spec_lookup p (lit ''gameInstances''))))"
    by (rule mapE_ok)
  then show ?thesis
    by (simp add: structureData_def spec_structured_def getProp_not_null[OF n])
qed

text \<open>
  C5. \<open>validateAndStructureData\<close> throws (the error of the failed check, or the
  \<open>TypeError\<close> of a property read on \<open>null\<close>, which has none of the keys) exactly when
  the input violates the schema in the specification's sense; on every other input it
  returns the fully populated object, with \<open>null\<close> for each field that is \<open>null\<close> or
  missing in the input.
\<close>

theorem validator_schema:
  "(spec_schemaViolation p \<longrightarrow> (\<exists>e. validateAndStructureData p raw = Inl e)) \<and>
   (\<not> spec_schemaViolation p \<longrightarrow> validateAndStructureData p raw = Inr (spec_structured p))"
proof (cases "spec_schemaViolation p")
  case True
  then have "checkTopLevel p \<noteq> Inr ()" by (simp add: checkTopLevel_ok)
  then obtain e where "checkTopLevel p = Inl e" by (cases "checkTopLevel p") auto
  with True show ?thesis by (simp add: validateAndStructureData_def)
next
  case False
  then have "checkTopLevel p = Inr ()" by (simp add: checkTopLevel_ok)
  with False show ?thesis by (simp add: validateAndStructureData_def structureData_ok)
qed

text \<open>C5 on the two examples of the specification: an input whose \<open>gameInstances\<close> is a
  string is rejected, and a file entry with a name only gets \<open>md5\<close> and \<open>sha1\<close> of
  \<open>null\<close>.\<close>

theorem validator_schema_witness:
  "(\<exists>e. validateAndStructureData
          (JObj [(lit ''reportNumber'', JNull),
                 (lit ''gameInstances'', JStr (lit ''not-an-array''))]) [] = Inl e) \<and>
   validateAndStructureData
     (JObj [(lit ''reportNumber'', JNull), (lit ''certificationDate'', JNull),
            (lit ''supplierRegistrationNumber'', JNull),
            (lit ''gameInstances'',
               JArr [JObj [(lit ''gameName'', JStr (lit ''X'')), (lit ''gameCode'', JNull),
                           (lit ''files'', JArr [JObj [(lit ''name'', JStr (lit ''a.dll''))]])]])])
     [] =
   Inr (JObj [(lit ''reportNumber'', JNull), (lit ''certificationDate'', JNull),
              (lit ''supplierRegistrationNumber'', JNull),
              (lit ''gameInstances'',
                 JArr [JObj [(lit ''gameName'', JStr (lit ''X'')), (lit ''gameCode'', JNull),
                             (lit ''files'',
                                JArr [JObj [(lit ''name'', JStr (lit ''a.dll'')),
                                            (lit ''md5'', JNull), (lit ''sha1'', JNull)]])]])])"
proof -
  define p1 where
    "p1 = JObj [(lit ''reportNumber'', JNull), (lit ''gameInstances'', JStr (lit ''not-an-array''))]"
  define p2 where
    "p2 = JObj [(lit ''reportNumber'', JNull), (lit ''certificationDate'', JNull),
            (lit ''supplierRegistrationNumber'', JNull),
            (lit ''gameInstances'',
               JArr [JObj [(lit ''gameName'', JStr (lit ''X'')), (lit ''gameCode'', JNull),
                           (lit ''files'', JArr [JObj [(lit ''name'', JStr (lit ''a.dll''))]])]])]"
  have v1: "spec_schemaViolation p1"
    by (simp add: p1_def spec_schemaViolation_def lit_def)
  have v2: "\<not> spec_schemaViolation p2"
    by (simp add: p2_def spec_schemaViolation_def spec_instanceViolation_def
        spec_fileViolation_def lit_def)
  have s2: "spec_structured p2 =
      JObj [(lit ''reportNumber'', JNull), (lit ''certificationDate'', JNull),
              (lit ''supplierRegistrationNumber'', JNull),
              (lit ''gameInstances'',
                 JArr [JObj [(lit ''gameName'', JStr (lit ''X'')), (lit ''gameCode'', JNull),
                             (lit ''files'',
                                JArr [JObj [(lit ''name'', JStr (lit ''a.dll'')),
                                            (lit ''md5'', JNull), (lit ''sha1'', JNull)]])]])]"
    by (simp add: p2_def spec_structured_def spec_structuredInstance_def spec_structuredFile_def
        lit_def)
  have a: "\<exists>e. validateAndStructureData p1 [] = Inl e"
    using validator_schema[of p1 "[]"] v1 by simp
  have b: "validateAndStructureData p2 [] = Inr (spec_structured p2)"
    using validator_schema[of p2 "[]"] v2 by simp
  show ?thesis using a b unfolding s2 unfolding p1_def p2_def by simp
qed


section \<open>Name normalization\<close>

subsection \<open>trim\<close>

lemma rev_dropWhile_split:
  "y = rev (dropWhile P (rev y)) @ rev (takeWhile P (rev y))"
proof -
  have "rev (rev y) = rev (takeWhile P (rev y) @ dropWhile P (rev y))"
    by (simp only: takeWhile_dropWhile_id)
  then show ?thesis by (simp only: rev_rev_ident rev_append)
qed

lemma trim_decompose:
  "\<exists>a b. s = a @ trim s @ b \<and> (\<forall>c \<in> set a. isWhitespace c) \<and> (\<forall>c \<in> set b. isWhitespace c)"
proof -
  let ?y = "dropWhile isWhitespace s"
  have 1: "s = takeWhile isWhitespace s @ ?y" by simp
  have 2: "?y = trim s @ rev (takeWhile isWhitespace (rev ?y))"
    unfolding trim_def by (rule rev_dropWhile_split)
  have 3: "\<forall>c \<in> set (takeWhile isWhitespace s). isWhitespace c"
    by (auto dest: set_takeWhileD)
  have 4: "\<forall>c \<in> set (rev (takeWhile isWhitespace (rev ?y))). isWhitespace c"
    by (auto dest: set_takeWhileD)
  from 1 2 have "s = takeWhile isWhitespace s @ trim s @ rev (takeWhile isWhitespace (rev ?y))"
    by simp
  with 3 4 show ?thesis by blast
qed

lemma set_trim: "set (trim s) \<subseteq> set s"
proof -
  obtain a b where "s = a @ trim s @ b" using trim_decompose by blast
  then have "set s = set a \<union> set (trim s) \<union> set b" by (metis set_append Un_assoc)
  then show ?thesis by blast
qed

lemma length_trim: "length (trim s) \<le> length s"
proof -
  obtain a b where "s = a @ trim s @ b" using trim_decompose by blast
  then have "length s = length a + length (trim s) + length b" by (metis length_append add.assoc)
  then show ?thesis by simp
qed

lemma trimmed_trim: "trimmed (trim s)"
proof (cases "trim s = []")
  case True
  then show ?thesis by (simp add: trimmed_def)
next
  case False
  define y where "y = dropWhile isWhitespace s"
  define r where "r = dropWhile isWhitespace (rev y)"
  have t: "trim s = rev r" by (simp add: trim_def r_def y_def)
  with False have r: "r \<noteq> []" by simp
  then have "\<not> isWhitespace (hd r)" unfolding r_def by (rule hd_dropWhile)
  then have l: "\<not> isWhitespace (last (trim s))" using r t by (simp add: last_rev)
  have y: "y \<noteq> []"
  proof
    assume "y = []"
    then have "r = []" by (simp add: r_def)
    with r show False by simp
  qed
  then have h: "\<not> isWhitespace (hd y)" unfolding y_def by (rule hd_dropWhile)
  have "y = trim s @ rev (takeWhile isWhitespace (rev y))"
    unfolding t r_def by (rule rev_dropWhile_split)
  with False have "hd y = hd (trim s)" by (metis hd_append2)
  with h l show ?thesis by (simp add: trimmed_def)
qed

lemma trim_trimmed: "trimmed s \<Longrightarrow> trim s = s"
proof (cases "s = []")
  case True
  then show ?thesis by (simp add: trim_def)
next
  case False
  assume "trimmed s"
  with False have h: "\<not> isWhitespace (hd s)" and l: "\<not> isWhitespace (last s)"
    by (simp_all add: trimmed_def)
  from False h have 1: "dropWhile isWhitespace s = s" by (cases s) simp_all
  from False l have "\<not> isWhitespace (hd (rev s))" by (simp add: hd_rev)
  with False have 2: "dropWhile isWhitespace (rev s) = rev s" by (cases "rev s") simp_all
  show ?thesis by (simp add: trim_def 1 2)
qed

lemma trim_idem: "trim (trim s) = trim s"
  by (rule trim_trimmed) (rule trimmed_trim)


subsection \<open>Collapsed whitespace\<close>

lemma collapsed_Cons_nonspace: "\<not> isWhitespace c \<Longrightarrow> collapsed (c # x) = collapsed x"
  by (cases x) simp_all

lemma collapsed_tl: "collapsed (c # x) \<Longrightarrow> collapsed x"
  by (cases x) simp_all

lemma collapsed_collapseWhitespace: "collapsed (collapseWhitespace s)"
proof (induction s rule: collapseWhitespace.induct)
  case 1
  then show ?case by simp
next
  case (2 c cs)
  show ?case
  proof (cases "isWhitespace c")
    case False
    with 2 show ?thesis by (simp add: collapsed_Cons_nonspace)
  next
    case True
    define r where "r = dropWhile isWhitespace cs"
    have e: "collapseWhitespace (c # cs) = 32 # collapseWhitespace r"
      using True by (simp add: r_def)
    have ih: "collapsed (collapseWhitespace r)"
      using 2(1)[OF True] by (simp add: r_def)
    show ?thesis
    proof (cases r)
      case Nil
      then show ?thesis unfolding e by simp
    next
      case (Cons d ds)
      then have "r \<noteq> []" by simp
      then have "\<not> isWhitespace (hd r)" unfolding r_def by (rule hd_dropWhile)
      with Cons have d: "\<not> isWhitespace d" by simp
      with ih Cons show ?thesis unfolding e by simp
    qed
  qed
qed

lemma collapseWhitespace_collapsed: "collapsed s \<Longrightarrow> collapseWhitespace s = s"
proof (induction s rule: collapsed.induct)
  case 1
  then show ?case by simp
next
  case (2 c)
  then show ?case by simp
next
  case (3 c d cs)
  then show ?case by auto
qed

lemma collapsed_append_right: "collapsed (a @ b) \<Longrightarrow> collapsed b"
  by (induction a) (auto dest: collapsed_tl)

lemma collapsed_append_left: "collapsed (a @ b) \<Longrightarrow> collapsed a"
proof (induction a rule: collapsed.induct)
  case 1
  then show ?case by simp
next
  case (2 c)
  then show ?case by (cases b) auto
next
  case (3 c d cs)
  then show ?case by auto
qed

lemma collapsed_trim: "collapsed s \<Longrightarrow> collapsed (trim s)"
proof -
  assume c: "collapsed s"
  obtain a b where "s = a @ trim s @ b" using trim_decompose by blast
  with c have "collapsed (a @ trim s @ b)" by simp
  then have "collapsed (trim s @ b)" by (rule collapsed_append_right)
  then show ?thesis by (rule collapsed_append_left)
qed

lemma set_collapseWhitespace: "set (collapseWhitespace s) \<subseteq> insert 32 (set s)"
proof (induction s rule: collapseWhitespace.induct)
  case 1
  then show ?case by simp
next
  case (2 c cs)
  have "set (dropWhile isWhitespace cs) \<subseteq> set cs" by (auto dest: set_dropWhileD)
  with 2 show ?case by (cases "isWhitespace c") auto
qed

lemma length_collapseWhitespace: "length (collapseWhitespace s) \<le> length s"
proof (induction s rule: collapseWhitespace.induct)
  case 1
  then show ?case by simp
next
  case (2 c cs)
  have "length (dropWhile isWhitespace cs) \<le> length cs" by (rule length_dropWhile_le)
  with 2 show ?case by (cases "isWhitespace c") auto
qed

subsection \<open>Lower case and symbols\<close>

lemma basicLatinLower_idem [simp]: "basicLatinLower (basicLatinLower c) = basicLatinLower c"
  by (simp add: basicLatinLower_def)

lemma isWhitespace_basicLatinLower [simp]: "isWhitespace (basicLatinLower c) = isWhitespace c"
  by (auto simp: basicLatinLower_def isWhitespace_def)

lemma isSymbol_basicLatinLower [simp]: "isSymbol (basicLatinLower c) = isSymbol c"
  by (auto simp: basicLatinLower_def isSymbol_def)

lemma basicLatinLower_space [simp]: "basicLatinLower 32 = 32"
  by (simp add: basicLatinLower_def)

lemma not_isSymbol_space [simp]: "\<not> isSymbol 32"
  by (simp add: isSymbol_def)

lemma isWhitespace_space [simp]: "isWhitespace 32"
  by (simp add: isWhitespace_def)

lemma knownCase_basicLatinLower [simp]: "knownCase (basicLatinLower c) = knownCase c"
  by (auto simp: knownCase_def basicLatinLower_def isWhitespace_def isSymbol_def)

lemma knownCase_space [simp]: "knownCase 32"
  by (simp add: knownCase_def)

text \<open>On a string of Basic Latin, whitespace and the three glyphs the case mapping plays
  no part.\<close>

lemma toLowerCase_known: "list_all knownCase s \<Longrightarrow> toLowerCase u s = map basicLatinLower s"
  by (simp add: toLowerCase_def)

lemma toLowerCase_fixed:
  "list_all knownCase s \<Longrightarrow> (\<forall>c \<in> set s. basicLatinLower c = c) \<Longrightarrow> toLowerCase u s = s"
  by (simp add: toLowerCase_def map_idI)

lemma knownCase_subset: "set a \<subseteq> set b \<Longrightarrow> list_all knownCase b \<Longrightarrow> list_all knownCase a"
  by (auto simp: list_all_iff)





lemma removeSymbols_fixed: "(\<forall>c \<in> set s. \<not> isSymbol c) \<Longrightarrow> removeSymbols s = s"
  by (simp add: removeSymbols_def)


subsection \<open>The two removals\<close>


lemma hasCopyToken_append_left: "hasCopyToken b \<Longrightarrow> hasCopyToken (a @ b)"
  by (induction a) simp_all


lemma copyToken_nonempty: "matchesCI copyToken s \<Longrightarrow> s \<noteq> []"
  by (auto simp: copyToken_def lit_def)

lemma matches_hasCopyToken: "matchesCI copyToken s \<Longrightarrow> hasCopyToken s"
  by (cases s) (auto dest: copyToken_nonempty)

lemma removeCopy_fixed: "\<not> hasCopyToken s \<Longrightarrow> removeCopy s = s"
proof (induction s)
  case Nil
  then show ?case by simp
next
  case (Cons c cs)
  have "\<not> matchesCI copyToken (dropWhile isWhitespace (c # cs))"
  proof
    assume "matchesCI copyToken (dropWhile isWhitespace (c # cs))"
    then have "hasCopyToken (dropWhile isWhitespace (c # cs))" by (rule matches_hasCopyToken)
    then have "hasCopyToken (takeWhile isWhitespace (c # cs) @ dropWhile isWhitespace (c # cs))"
      by (rule hasCopyToken_append_left)
    then have "hasCopyToken (c # cs)" by (simp only: takeWhile_dropWhile_id)
    with Cons.prems show False by simp
  qed
  moreover from Cons have "removeCopy cs = cs" by simp
  ultimately show ?case by (simp only: removeCopy.simps Let_def if_False)
qed

lemma version_after_whitespace:
  "isWhitespace c \<Longrightarrow> isVersionToken (dropWhile isWhitespace cs) \<Longrightarrow> hasVersionSuffix (c # cs)"
proof (induction cs arbitrary: c)
  case Nil
  then show ?case by (simp add: isVersionToken_def)
next
  case (Cons d ds)
  show ?case
  proof (cases "isWhitespace d")
    case True
    with Cons.prems have "isVersionToken (dropWhile isWhitespace ds)" by simp
    with True have "hasVersionSuffix (d # ds)" by (rule Cons.IH)
    then show ?thesis by simp
  next
    case False
    with Cons.prems show ?thesis by simp
  qed
qed

lemma removeVersionSuffix_fixed: "\<not> hasVersionSuffix s \<Longrightarrow> removeVersionSuffix s = s"
proof (induction s)
  case Nil
  then show ?case by simp
next
  case (Cons c cs)
  from Cons.prems have "\<not> (isWhitespace c \<and> isVersionToken (dropWhile isWhitespace cs))"
    using version_after_whitespace[of c cs] by blast
  moreover from Cons have "removeVersionSuffix cs = cs" by simp
  ultimately show ?case by simp
qed

subsection \<open>The steps keep the characters of the input\<close>

lemma removeVersionSuffix_prefix: "\<exists>b. s = removeVersionSuffix s @ b"
  by (induction s) auto

lemma set_removeVersionSuffix: "set (removeVersionSuffix s) \<subseteq> set s"
proof -
  obtain b where "s = removeVersionSuffix s @ b" using removeVersionSuffix_prefix by blast
  then have "set s = set (removeVersionSuffix s) \<union> set b" by (metis set_append)
  then show ?thesis by blast
qed

lemma set_removeCopy: "set (removeCopy s) \<subseteq> set s"
proof (induction s)
  case Nil
  then show ?case by simp
next
  case (Cons c cs)
  have "set (drop (length copyToken) (dropWhile isWhitespace (c # cs))) \<subseteq> set (c # cs)"
    by (meson set_drop_subset set_dropWhileD subsetD subsetI)
  with Cons show ?case by (simp only: removeCopy.simps Let_def split: if_splits) auto
qed

lemma set_head_steps: "set (removeVersionSuffix (removeCopy (trim s))) \<subseteq> set s"
  using set_removeVersionSuffix[of "removeCopy (trim s)"] set_removeCopy[of "trim s"] set_trim[of s]
  by blast

lemma knownCase_head_steps:
  "list_all knownCase s \<Longrightarrow> list_all knownCase (removeVersionSuffix (removeCopy (trim s)))"
  using set_head_steps by (rule knownCase_subset)

text \<open>The key of a name of Basic Latin, whitespace and the three glyphs is the same for
  every case mapping.\<close>

lemma normalizeGameName_known:
  "list_all knownCase s \<Longrightarrow> normalizeGameName u (Some s) = normalizeGameName u' (Some s)"
  by (simp add: normalizeGameName_def toLowerCase_known[OF knownCase_head_steps])

subsection \<open>The normalized form\<close>

text \<open>What every result of the normalizer is: trimmed, collapsed, without the three
  glyphs; and in lower case, when the name is of Basic Latin, whitespace and the glyphs.\<close>

lemma normalized_form:
  "trimmed (normalizeGameName u x) \<and> collapsed (normalizeGameName u x) \<and>
   (\<forall>c \<in> set (normalizeGameName u x). \<not> isSymbol c)"
proof (cases "x = None \<or> x = Some []")
  case True
  then show ?thesis by (auto simp: normalizeGameName_def trimmed_def)
next
  case False
  then obtain s where x: "x = Some s" "s \<noteq> []" by auto
  define z where "z = removeSymbols (toLowerCase u (removeVersionSuffix (removeCopy (trim s))))"
  have n: "normalizeGameName u x = trim (collapseWhitespace z)"
    using x by (simp add: normalizeGameName_def z_def)
  have z: "\<forall>c \<in> set z. \<not> isSymbol c"
    by (simp add: z_def removeSymbols_def)
  have "set (trim (collapseWhitespace z)) \<subseteq> insert 32 (set z)"
    using set_trim[of "collapseWhitespace z"] set_collapseWhitespace[of z] by blast
  with z have "\<forall>c \<in> set (trim (collapseWhitespace z)). \<not> isSymbol c"
    by auto
  then show ?thesis
    unfolding n using trimmed_trim collapsed_trim[OF collapsed_collapseWhitespace] by blast
qed

lemma normalized_form_known:
  assumes "list_all knownCase s"
  shows "\<forall>c \<in> set (normalizeGameName u (Some s)). basicLatinLower c = c \<and> knownCase c"
proof (cases "s = []")
  case True
  then show ?thesis by (simp add: normalizeGameName_def)
next
  case False
  define v where "v = removeVersionSuffix (removeCopy (trim s))"
  define z where "z = removeSymbols (map basicLatinLower v)"
  have k: "list_all knownCase v" unfolding v_def using assms by (rule knownCase_head_steps)
  then have l: "toLowerCase u v = map basicLatinLower v" by (rule toLowerCase_known)
  have n: "normalizeGameName u (Some s) = trim (collapseWhitespace z)"
    using False by (simp add: normalizeGameName_def z_def l[unfolded v_def] v_def)
  have z: "\<forall>c \<in> set z. basicLatinLower c = c \<and> knownCase c"
    using k by (auto simp: z_def removeSymbols_def list_all_iff)
  have "set (trim (collapseWhitespace z)) \<subseteq> insert 32 (set z)"
    using set_trim[of "collapseWhitespace z"] set_collapseWhitespace[of z] by blast
  with z have "\<forall>c \<in> set (trim (collapseWhitespace z)). basicLatinLower c = c \<and> knownCase c"
    by auto
  then show ?thesis unfolding n .
qed

lemma normalize_fixed_when_clean:
  assumes "\<not> hasCopyToken (normalizeGameName u x)" and "\<not> hasVersionSuffix (normalizeGameName u x)"
    and "toLowerCase u (normalizeGameName u x) = normalizeGameName u x"
  shows "normalizeGameName u (Some (normalizeGameName u x)) = normalizeGameName u x"
proof (cases "normalizeGameName u x = []")
  case True
  then show ?thesis by (simp add: normalizeGameName_def)
next
  case False
  define n where "n = normalizeGameName u x"
  have f: "trimmed n" "collapsed n" "\<forall>c \<in> set n. \<not> isSymbol c"
    using normalized_form[of u x] by (simp_all add: n_def)
  have 1: "trim n = n" using f(1) by (rule trim_trimmed)
  have 2: "removeCopy n = n" using assms(1) unfolding n_def by (rule removeCopy_fixed)
  have 3: "removeVersionSuffix n = n" using assms(2) unfolding n_def by (rule removeVersionSuffix_fixed)
  have 4: "toLowerCase u n = n" using assms(3) by (simp add: n_def)
  have 5: "removeSymbols n = n" using f(3) by (rule removeSymbols_fixed)
  have 6: "collapseWhitespace n = n" using f(2) by (rule collapseWhitespace_collapsed)
  have "normalizeGameName u (Some n) = n"
    using False by (simp add: normalizeGameName_def n_def[symmetric] 1 2 3 4 5 6)
  then show ?thesis by (simp add: n_def)
qed

lemma matchesCI_length: "matchesCI t s \<Longrightarrow> length t \<le> length s"
  by (induction t s rule: matchesCI.induct) simp_all

lemma copyToken_head: "matchesCI copyToken (c # cs) \<Longrightarrow> \<not> isWhitespace c"
  by (auto simp: copyToken_def lit_def basicLatinLower_def isWhitespace_def split: if_splits)

lemma length_removeCopy: "length (removeCopy s) \<le> length s"
proof (induction s)
  case Nil
  then show ?case by simp
next
  case (Cons c cs)
  have "length (dropWhile isWhitespace (c # cs)) \<le> length (c # cs)"
    by (rule length_dropWhile_le)
  with Cons show ?case by (simp only: removeCopy.simps Let_def split: if_splits) auto
qed

lemma removeCopy_shrinks: "hasCopyToken s \<Longrightarrow> length (removeCopy s) < length s"
proof (induction s)
  case Nil
  then show ?case by simp
next
  case (Cons c cs)
  define rest where "rest = dropWhile isWhitespace (c # cs)"
  have l: "length rest \<le> length (c # cs)" unfolding rest_def by (rule length_dropWhile_le)
  show ?case
  proof (cases "matchesCI copyToken rest")
    case True
    then have "length copyToken \<le> length rest" by (rule matchesCI_length)
    then have "6 \<le> length rest" by (simp add: copyToken_def lit_def)
    with l have "length (drop (length copyToken) rest) < length (c # cs)"
      by (simp add: copyToken_def lit_def)
    with True show ?thesis by (simp only: removeCopy.simps Let_def rest_def[symmetric] if_True)
  next
    case False
    have "\<not> matchesCI copyToken (c # cs)"
    proof
      assume m: "matchesCI copyToken (c # cs)"
      then have "\<not> isWhitespace c" by (rule copyToken_head)
      then have "rest = c # cs" by (simp add: rest_def)
      with m False show False by simp
    qed
    with Cons.prems have "hasCopyToken cs" by simp
    then have "length (removeCopy cs) < length cs" by (rule Cons.IH)
    with False show ?thesis by (simp only: removeCopy.simps Let_def rest_def[symmetric] if_False) simp
  qed
qed

lemma length_removeVersionSuffix: "length (removeVersionSuffix s) \<le> length s"
  by (induction s) auto

lemma versionToken_head: "isVersionToken cs \<Longrightarrow> dropWhile isWhitespace cs = cs"
proof (cases cs)
  case Nil
  then show ?thesis by simp
next
  case (Cons a as)
  assume "isVersionToken cs"
  with Cons have "basicLatinLower a = 57 \<or> basicLatinLower a = 118"
    by (auto simp: isVersionToken_def lit_def)
  then have "\<not> isWhitespace a"
    by (auto simp: basicLatinLower_def isWhitespace_def split: if_splits)
  with Cons show ?thesis by simp
qed

lemma removeVersionSuffix_shrinks:
  "hasVersionSuffix s \<Longrightarrow> length (removeVersionSuffix s) < length s"
proof (induction s)
  case Nil
  then show ?case by simp
next
  case (Cons c cs)
  show ?case
  proof (cases "isWhitespace c \<and> isVersionToken (dropWhile isWhitespace cs)")
    case True
    then show ?thesis by simp
  next
    case False
    have "\<not> (isWhitespace c \<and> isVersionToken cs)"
      using False versionToken_head[of cs] by auto
    with Cons.prems have "hasVersionSuffix cs" by simp
    then have "length (removeVersionSuffix cs) < length cs" by (rule Cons.IH)
    with False show ?thesis by auto
  qed
qed

lemma length_tail_steps:
  assumes "list_all knownCase s"
  shows "length (trim (collapseWhitespace (removeSymbols (toLowerCase u s)))) \<le> length s"
proof -
  have "length (trim (collapseWhitespace (removeSymbols (toLowerCase u s)))) \<le>
        length (collapseWhitespace (removeSymbols (toLowerCase u s)))" by (rule length_trim)
  also have "\<dots> \<le> length (removeSymbols (toLowerCase u s))" by (rule length_collapseWhitespace)
  also have "\<dots> \<le> length (toLowerCase u s)" by (simp add: removeSymbols_def)
  also have "\<dots> = length s" using assms by (simp add: toLowerCase_known)
  finally show ?thesis .
qed

lemma normalize_shrinks:
  assumes "trim n = n" and "hasCopyToken n \<or> hasVersionSuffix n" and "list_all knownCase n"
  shows "length (normalizeGameName u (Some n)) < length n"
proof -
  from assms(2) have ne: "n \<noteq> []" by auto
  have "length (removeVersionSuffix (removeCopy n)) < length n"
  proof (cases "hasCopyToken n")
    case True
    then have "length (removeCopy n) < length n" by (rule removeCopy_shrinks)
    moreover have "length (removeVersionSuffix (removeCopy n)) \<le> length (removeCopy n)"
      by (rule length_removeVersionSuffix)
    ultimately show ?thesis by simp
  next
    case False
    then have "removeCopy n = n" by (rule removeCopy_fixed)
    moreover from False assms(2) have "length (removeVersionSuffix n) < length n"
      by (auto intro: removeVersionSuffix_shrinks)
    ultimately show ?thesis by simp
  qed
  moreover have "list_all knownCase (removeVersionSuffix (removeCopy n))"
    using knownCase_head_steps[OF assms(3)] by (simp add: assms(1))
  then have "length (normalizeGameName u (Some n)) \<le> length (removeVersionSuffix (removeCopy n))"
    using ne length_tail_steps[of "removeVersionSuffix (removeCopy n)" u]
    by (simp add: normalizeGameName_def assms(1))
  ultimately show ?thesis by simp
qed

text \<open>
  C2, as amended. The key of no name and of the empty name is a fixed point. A key that
  contains no \<open>(copy)\<close> token, does not end in whitespace followed by \<open>94%\<close> or
  \<open>v94\<close>, and is its own lower case, is a fixed point. For a name written in Basic
  Latin, whitespace and the three glyphs the key is a fixed point exactly when it contains
  no \<open>(copy)\<close> token and does not end in whitespace followed by \<open>94%\<close> or \<open>v94\<close>:
  one application removes one token and one suffix only, and it looks for the suffix before
  it removes the glyphs.
\<close>

theorem normalize_idempotent_iff:
  "normalizeGameName u (Some (normalizeGameName u None)) = normalizeGameName u None \<and>
   normalizeGameName u (Some (normalizeGameName u (Some []))) = normalizeGameName u (Some []) \<and>
   (\<not> hasCopyToken (normalizeGameName u x) \<and> \<not> hasVersionSuffix (normalizeGameName u x) \<and>
    toLowerCase u (normalizeGameName u x) = normalizeGameName u x \<longrightarrow>
      normalizeGameName u (Some (normalizeGameName u x)) = normalizeGameName u x) \<and>
   (list_all knownCase s \<longrightarrow>
      (normalizeGameName u (Some (normalizeGameName u (Some s))) = normalizeGameName u (Some s) \<longleftrightarrow>
         \<not> hasCopyToken (normalizeGameName u (Some s)) \<and>
         \<not> hasVersionSuffix (normalizeGameName u (Some s))))"
proof -
  have 1: "normalizeGameName u (Some (normalizeGameName u None)) = normalizeGameName u None"
    by (simp add: normalizeGameName_def)
  have 2: "normalizeGameName u (Some (normalizeGameName u (Some []))) = normalizeGameName u (Some [])"
    by (simp add: normalizeGameName_def)
  have 3: "normalizeGameName u (Some (normalizeGameName u x)) = normalizeGameName u x"
    if "\<not> hasCopyToken (normalizeGameName u x) \<and> \<not> hasVersionSuffix (normalizeGameName u x) \<and>
        toLowerCase u (normalizeGameName u x) = normalizeGameName u x"
    using that normalize_fixed_when_clean[of u x] by blast
  have 4: "normalizeGameName u (Some (normalizeGameName u (Some s))) = normalizeGameName u (Some s) \<longleftrightarrow>
         \<not> hasCopyToken (normalizeGameName u (Some s)) \<and>
         \<not> hasVersionSuffix (normalizeGameName u (Some s))"
    if k: "list_all knownCase s"
  proof -
    define n where "n = normalizeGameName u (Some s)"
    have f: "\<forall>c \<in> set n. basicLatinLower c = c \<and> knownCase c"
      unfolding n_def using k by (rule normalized_form_known)
    then have kn: "list_all knownCase n" by (simp add: list_all_iff)
    have low: "toLowerCase u n = n" using kn f by (simp add: toLowerCase_fixed)
    have t: "trim n = n" unfolding n_def using normalized_form[of u "Some s"] by (blast intro: trim_trimmed)
    have "normalizeGameName u (Some n) = n \<longleftrightarrow> \<not> hasCopyToken n \<and> \<not> hasVersionSuffix n"
    proof
      assume e: "normalizeGameName u (Some n) = n"
      show "\<not> hasCopyToken n \<and> \<not> hasVersionSuffix n"
      proof (rule ccontr)
        assume "\<not> (\<not> hasCopyToken n \<and> \<not> hasVersionSuffix n)"
        then have "hasCopyToken n \<or> hasVersionSuffix n" by blast
        with t have "length (normalizeGameName u (Some n)) < length n"
          using kn by (rule normalize_shrinks)
        with e show False by simp
      qed
    next
      assume "\<not> hasCopyToken n \<and> \<not> hasVersionSuffix n"
      then show "normalizeGameName u (Some n) = n"
        using low normalize_fixed_when_clean[of u "Some s"] by (simp add: n_def)
    qed
    then show ?thesis by (simp add: n_def)
  qed
  from 1 2 3 4 show ?thesis by (intro conjI impI)
qed

text \<open>C2 on the name of the specification's example, trade mark sign, \<open>(copy)\<close> and
  \<open>94%\<close>: its key \<open>mega fortune\<close> is a fixed point.\<close>

theorem normalize_idempotent_iff_witness:
  "list_all knownCase (lit ''Mega Fortune'' @ [8482] @ lit '' (copy) 94%'') \<and>
   normalizeGameName (\<lambda>s. s) (Some (lit ''Mega Fortune'' @ [8482] @ lit '' (copy) 94%'')) =
     lit ''mega fortune'' \<and>
   toLowerCase (\<lambda>s. s) (lit ''mega fortune'') = lit ''mega fortune'' \<and>
   normalizeGameName (\<lambda>s. s) (Some (normalizeGameName (\<lambda>s. s)
      (Some (lit ''Mega Fortune'' @ [8482] @ lit '' (copy) 94%'')))) =
   normalizeGameName (\<lambda>s. s) (Some (lit ''Mega Fortune'' @ [8482] @ lit '' (copy) 94%''))"
proof -
  define s where "s = lit ''Mega Fortune'' @ [8482] @ lit '' (copy) 94%''"
  define u where "u = (\<lambda>s :: jsstring. s)"
  have k: "list_all knownCase s" by (simp add: s_def normalize_eval)
  have e: "normalizeGameName u (Some s) = lit ''mega fortune''"
    by (simp add: s_def u_def normalize_eval)
  have c: "\<not> hasCopyToken (lit ''mega fortune'')" "\<not> hasVersionSuffix (lit ''mega fortune'')"
    by (simp_all add: normalize_eval)
  have l: "toLowerCase u (lit ''mega fortune'') = lit ''mega fortune''"
    by (simp add: normalize_eval)
  note t = normalize_idempotent_iff[where u = u and x = "Some s" and s = s]
  note general = t[THEN conjunct2, THEN conjunct2, THEN conjunct1, THEN mp]
  note known = t[THEN conjunct2, THEN conjunct2, THEN conjunct2, THEN mp, OF k]
  have g: "normalizeGameName u (Some (normalizeGameName u (Some s))) = normalizeGameName u (Some s)"
    using general c l by (simp add: e)
  have "normalizeGameName u (Some (normalizeGameName u (Some s))) = normalizeGameName u (Some s)"
    using known c by (simp add: e)
  with k e l show ?thesis unfolding s_def u_def by simp
qed

text \<open>
  C2 as stated fails on a name with two \<open>(copy)\<close> tokens: the first application leaves
  one of them, the second removes it. The name is of Basic Latin, so that the case mapping
  plays no part.
\<close>

theorem normalize_idempotent_counterexample:
  "normalizeGameName (\<lambda>s. s) (Some (lit ''a (copy) (copy)'')) = lit ''a (copy)'' \<and>
   normalizeGameName (\<lambda>s. s) (Some (normalizeGameName (\<lambda>s. s) (Some (lit ''a (copy) (copy)'')))) =
     lit ''a'' \<and>
   normalizeGameName (\<lambda>s. s) (Some (normalizeGameName (\<lambda>s. s) (Some (lit ''a (copy) (copy)'')))) \<noteq>
     normalizeGameName (\<lambda>s. s) (Some (lit ''a (copy) (copy)''))"
  by (simp add: normalize_eval)

subsection \<open>Where a token can come from\<close>







subsection \<open>What one application removes\<close>









end
